theory Spec2Isabelle
  imports Main "HOL-Library.Word"
begin

unbundle bit_operations_syntax

section \<open>Data model of the frame builder\<close>

text \<open>
  The embedding follows \<^verbatim>\<open>e2sar_reassembler_framebuilder.cpp\<close>. Fixed-width C++ integers are
  words of the same width (arithmetic wraps). A value of type \<^verbatim>\<open>size_t\<close> that counts elements or
  bytes of a vector is a \<^typ>\<open>nat\<close>; each \<^verbatim>\<open>static_cast<uint32_t>\<close> of such a value is
  written out as \<^term>\<open>of_nat :: nat \<Rightarrow> 32 word\<close>. A C++ \<^verbatim>\<open>int\<close> that is only
  configured and compared is an \<^typ>\<open>int\<close>, its conversion to an unsigned 64-bit value is
  \<^term>\<open>of_int :: int \<Rightarrow> 64 word\<close>. The steady clock is a number of milliseconds.
\<close>

type_synonym u8 = "8 word"
type_synonym u16 = "16 word"
type_synonym u32 = "32 word"
type_synonym u64 = "64 word"

record TimeSlice =
  timestamp :: u64
  frameNumber :: u32
  dataId :: u16
  streamStatus :: u16
  payload :: "u8 list"

text \<open>The constructor \<^verbatim>\<open>TimeSlice(ts, frame, id, data, len)\<close>: the status field starts at 0.\<close>

definition TimeSlice_ctor :: "u64 \<Rightarrow> u32 \<Rightarrow> u16 \<Rightarrow> u8 list \<Rightarrow> TimeSlice" where
  "TimeSlice_ctor ts frame ident data =
     \<lparr>TimeSlice.timestamp = ts, TimeSlice.frameNumber = frame, dataId = ident,
      streamStatus = 0, payload = data\<rparr>"

record AggregatedFrame =
  timestamp :: u64
  frameNumber :: u32
  slices :: "TimeSlice list"
  arrivalTime :: nat

text \<open>The default constructor reads the clock; \<open>now\<close> is that reading.\<close>

definition AggregatedFrame_ctor :: "nat \<Rightarrow> AggregatedFrame" where
  "AggregatedFrame_ctor now =
     \<lparr>AggregatedFrame.timestamp = 0, AggregatedFrame.frameNumber = 0, slices = [],
      arrivalTime = now\<rparr>"

definition addSlice :: "TimeSlice \<Rightarrow> AggregatedFrame \<Rightarrow> AggregatedFrame" where
  "addSlice sl frame = frame\<lparr>slices := slices frame @ [sl]\<rparr>"

definition getSliceCount :: "AggregatedFrame \<Rightarrow> nat" where
  "getSliceCount frame = length (slices frame)"

definition isTimedOut :: "nat \<Rightarrow> int \<Rightarrow> AggregatedFrame \<Rightarrow> bool" where
  "isTimedOut now timeoutMs frame \<longleftrightarrow> int now - int (arrivalTime frame) > timeoutMs"

section \<open>Words and bytes\<close>

text \<open>
  The encoder reads and writes 32-bit words through \<^verbatim>\<open>reinterpret_cast<uint32_t*>\<close>. The host
  is little-endian, as the source assumes when it swaps every metadata word "to BIG endian":
  \<open>load_u32\<close> and \<open>store_u32\<close> are the host's word access.
\<close>

definition load_u32 :: "u8 list \<Rightarrow> nat \<Rightarrow> u32" where
  "load_u32 bs i =
     ucast (bs ! (4 * i)) OR push_bit 8 (ucast (bs ! (4 * i + 1)))
     OR push_bit 16 (ucast (bs ! (4 * i + 2))) OR push_bit 24 (ucast (bs ! (4 * i + 3)))"

definition store_u32 :: "u32 \<Rightarrow> u8 list" where
  "store_u32 v = [ucast v, ucast (drop_bit 8 v), ucast (drop_bit 16 v), ucast (drop_bit 24 v)]"

text \<open>The swap of step 7.\<close>

definition bswap32 :: "u32 \<Rightarrow> u32" where
  "bswap32 val =
     push_bit 24 (val AND 0x000000FF) OR push_bit 8 (val AND 0x0000FF00)
     OR drop_bit 8 (val AND 0x00FF0000) OR drop_bit 24 (val AND 0xFF000000)"

text \<open>
  The reader of an emitted record: word \<open>i\<close> of buffer \<open>B\<close>, most significant byte first.
\<close>

definition read_be_u32 :: "u8 list \<Rightarrow> nat \<Rightarrow> u32" where
  "read_be_u32 B i =
     push_bit 24 (ucast (B ! (4 * i))) OR push_bit 16 (ucast (B ! (4 * i + 1)))
     OR push_bit 8 (ucast (B ! (4 * i + 2))) OR ucast (B ! (4 * i + 3))"

section \<open>The encoder: \<^verbatim>\<open>BuilderThread::buildEVIO6Frame\<close>\<close>

definition ts_min :: "u64 \<Rightarrow> u64 \<Rightarrow> u64" where
  "ts_min a b = (if b < a then b else a)"

definition ts_max :: "u64 \<Rightarrow> u64 \<Rightarrow> u64" where
  "ts_max a b = (if a < b then b else a)"

text \<open>The loop of \<^verbatim>\<open>checkTimestampConsistency\<close> over the slices, carrying (tsMin, tsMax).\<close>

fun minmax_loop :: "TimeSlice list \<Rightarrow> u64 \<times> u64 \<Rightarrow> u64 \<times> u64" where
  "minmax_loop [] acc = acc"
| "minmax_loop (sl # rest) (tsMin, tsMax) =
     minmax_loop rest (ts_min tsMin (TimeSlice.timestamp sl),
                       ts_max tsMax (TimeSlice.timestamp sl))"

definition checkTimestampConsistency :: "int \<Rightarrow> AggregatedFrame \<Rightarrow> bool" where
  "checkTimestampConsistency timestampSlop frame =
     (case slices frame of
        [] \<Rightarrow> False
      | s0 # _ \<Rightarrow>
          (case minmax_loop (slices frame) (TimeSlice.timestamp s0, TimeSlice.timestamp s0) of
             (tsMin, tsMax) \<Rightarrow> tsMax - tsMin > (of_int timestampSlop :: u64)))"

text \<open>The loop of \<^verbatim>\<open>calculateAverageTimestamp\<close>: a 64-bit sum, which wraps.\<close>

fun total_loop :: "TimeSlice list \<Rightarrow> u64 \<Rightarrow> u64" where
  "total_loop [] tot = tot"
| "total_loop (sl # rest) tot = total_loop rest (tot + TimeSlice.timestamp sl)"

definition calculateAverageTimestamp :: "AggregatedFrame \<Rightarrow> u64" where
  "calculateAverageTimestamp frame =
     (if slices frame = [] then 0
      else total_loop (slices frame) 0 div of_nat (length (slices frame)))"

text \<open>
  Step 1, the validation loop. It carries \<open>hasError\<close> and the stripped ROC banks; a slice that is
  too small or has a bad magic word sets \<open>hasError\<close> and is skipped.
\<close>

fun validate_loop :: "TimeSlice list \<Rightarrow> bool \<times> u8 list list \<Rightarrow> bool \<times> u8 list list" where
  "validate_loop [] acc = acc"
| "validate_loop (sl # rest) (hasError, rocBanks) =
     (if length (payload sl) < 32 then validate_loop rest (True, rocBanks)
      else
        let magic = load_u32 (payload sl) 7 in
        if magic \<noteq> 0xc0da0100 \<and> magic \<noteq> 0x0001dac0 then validate_loop rest (True, rocBanks)
        else validate_loop rest (hasError, rocBanks @ [drop 32 (payload sl)]))"

text \<open>Step 2, the 14 words of the record header as they are pushed.\<close>

definition bitInfo :: u32 where
  "bitInfo = 6 OR push_bit 9 1 OR push_bit 14 1 OR push_bit 31 1"

definition recordHeader :: "u32 list" where
  "recordHeader = [0, 0, 14, 1, 0, bitInfo, 0, 0xc0da0100, 0, 0, 0, 0, 0, 0]"

definition aisEntry :: "TimeSlice \<Rightarrow> u32" where
  "aisEntry sl = push_bit 16 (ucast (dataId sl)) OR ucast (streamStatus sl)"

text \<open>
  Steps 2 to 4: the metadata words before any length is filled in. Index 14 is the
  aggregated bank length, index 16 the stream info length.
\<close>

definition metadataWords :: "u32 \<Rightarrow> u32 \<Rightarrow> u64 \<Rightarrow> AggregatedFrame \<Rightarrow> u32 list" where
  "metadataWords sliceCount status tsAvg frame =
     recordHeader
     @ [0, push_bit 16 0xFF60 OR push_bit 8 0x10 OR status]
     @ [0, push_bit 16 0xFF31 OR push_bit 8 0x20 OR status]
     @ [push_bit 24 0x32 OR push_bit 16 0x01 OR 3,
        AggregatedFrame.frameNumber frame,
        ucast (tsAvg AND 0xFFFFFFFF),
        ucast (drop_bit 32 tsAvg AND 0xFFFFFFFF)]
     @ [push_bit 24 0x42 OR push_bit 16 0x01 OR sliceCount]
     @ map aisEntry (slices frame)"

text \<open>Step 5, the padded size of the ROC banks in bytes.\<close>

fun totalPayloadBytes_loop :: "u8 list list \<Rightarrow> nat \<Rightarrow> nat" where
  "totalPayloadBytes_loop [] totalPayloadBytes = totalPayloadBytes"
| "totalPayloadBytes_loop (rocBank # rest) totalPayloadBytes =
     totalPayloadBytes_loop rest
       (if length rocBank mod 4 \<noteq> 0
        then totalPayloadBytes + length rocBank + (4 - length rocBank mod 4)
        else totalPayloadBytes + length rocBank)"

text \<open>Step 8: the padding loop, and the loop that appends each ROC bank.\<close>

function pad4 :: "u8 list \<Rightarrow> u8 list" where
  "pad4 out = (if length out mod 4 \<noteq> 0 then pad4 (out @ [0]) else out)"
  by pat_completeness auto
termination
proof (relation "measure (\<lambda>out. (4 - length out mod 4) mod 4)")
  show "wf (measure (\<lambda>out::u8 list. (4 - length out mod 4) mod 4))" by simp
next
  fix out :: "u8 list"
  assume nz: "length out mod 4 \<noteq> 0"
  have "length out mod 4 < 4" by simp
  then consider "length out mod 4 = 1" | "length out mod 4 = 2" | "length out mod 4 = 3"
    using nz by linarith
  then have "(4 - Suc (length out) mod 4) mod 4 < (4 - length out mod 4) mod 4"
    by cases (simp_all add: mod_Suc)
  then show "(out @ [0], out) \<in> measure (\<lambda>out. (4 - length out mod 4) mod 4)"
    by simp
qed

declare pad4.simps [simp del]

fun appendRocBanks :: "u8 list list \<Rightarrow> u8 list \<Rightarrow> u8 list" where
  "appendRocBanks [] out = out"
| "appendRocBanks (rocBank # rest) out = appendRocBanks rest (pad4 (out @ rocBank))"

text \<open>
  Steps 4 (end), 5 and 6: the length fields are filled in. The stream info length is written
  at index 16, the aggregated bank length at index 14, the record length at index 0 and the
  uncompressed data length at index 8.
\<close>

definition fillLengths :: "u32 list \<Rightarrow> u8 list list \<Rightarrow> u32 list" where
  "fillLengths eventWords rocBanks =
     (let aggregatedBankLengthIndex = (14 :: nat);
          streamInfoLengthIndex = (16 :: nat);
          streamInfoLength = length eventWords - streamInfoLengthIndex - 1;
          eventWords1 = list_update eventWords streamInfoLengthIndex (of_nat streamInfoLength);
          totalPayloadBytes = totalPayloadBytes_loop rocBanks 0;
          totalPayloadWords = totalPayloadBytes div 4;
          aggregatedBankLength =
            (length eventWords1 - aggregatedBankLengthIndex - 1) + totalPayloadWords;
          eventWords2 =
            list_update eventWords1 aggregatedBankLengthIndex (of_nat aggregatedBankLength);
          recordLength = 14 + aggregatedBankLength + 1;
          eventWords3 = list_update eventWords2 0 (of_nat recordLength);
          uncompressedDataLength = recordLength - 14
      in list_update eventWords3 8 (of_nat uncompressedDataLength))"

text \<open>Step 7: every metadata word is swapped and stored.\<close>

definition swapAndStore :: "u32 list \<Rightarrow> u8 list" where
  "swapAndStore eventWords = concat (map (\<lambda>val. store_u32 (bswap32 val)) eventWords)"

text \<open>
  The whole function. The result is the returned flag and the output vector; the caller passes
  an empty vector, which the early return leaves empty.
\<close>

definition buildEVIO6Frame :: "int \<Rightarrow> AggregatedFrame \<Rightarrow> bool \<times> u8 list" where
  "buildEVIO6Frame timestampSlop frame =
     (let sliceCount = (of_nat (length (slices frame)) :: u32);
          hasError = checkTimestampConsistency timestampSlop frame;
          tsAvg = calculateAverageTimestamp frame;
          status = push_bit 7 (if hasError then 1 else 0) OR (sliceCount AND 0x7F);
          validated = validate_loop (slices frame) (hasError, []);
          rocBanks = snd validated
      in if rocBanks = [] then (False, [])
         else
           (\<not> fst validated,
            appendRocBanks rocBanks
              (swapAndStore (fillLengths (metadataWords sliceCount status tsAvg frame) rocBanks))))"

section \<open>The builder thread\<close>

text \<open>
  The state of one \<^verbatim>\<open>BuilderThread\<close>. The frame buffer is the
  \<^verbatim>\<open>unordered_map\<close> from timestamp to frame. The two sinks are outside the program, so
  the state records what reached them: \<open>etEvents\<close> are the events put into the ET system,
  \<open>files\<close> are the output files in the order they were opened, each as the list of the
  blocks written to it. The thread is taken to be running: the stop checkpoints of
  \<^verbatim>\<open>threadFunc\<close> are not modelled.
\<close>

record BuilderThread =
  threadIndex :: int
  threadCount :: int
  useET :: bool
  useFileOutput :: bool
  outputFileOpen :: bool
  currentFileSize :: u64
  maxFileSize :: u64
  currentFileNumber :: int
  frameBuffer :: "u64 \<rightharpoonup> AggregatedFrame"
  timestampSlop :: int
  frameTimeoutMs :: int
  etEventSize :: int
  expectedStreamCount :: int
  framesBuilt :: u64
  slicesProcessed :: u64
  buildErrors :: u64
  timestampErrors :: u64
  filesCreated :: u64
  bytesWritten :: u64
  etEvents :: "u8 list list"
  files :: "u8 list list list"

text \<open>
  What the ET library and the file system answer: whether \<^verbatim>\<open>et_events_new\<close> and
  \<^verbatim>\<open>et_events_put\<close> return \<^verbatim>\<open>ET_OK\<close>, the length of the event obtained, and
  whether opening and writing a file succeed.
\<close>

record Env =
  et_events_new_ok :: bool
  et_event_length :: nat
  et_events_put_ok :: bool
  file_open_ok :: bool
  file_write_ok :: bool

definition BuilderThread_ctor ::
  "int \<Rightarrow> int \<Rightarrow> int \<Rightarrow> int \<Rightarrow> int \<Rightarrow> bool \<Rightarrow> bool \<Rightarrow> int \<Rightarrow> BuilderThread" where
  "BuilderThread_ctor index count tsSlop timeout evtSize enableET enableFile numExpectedStreams =
     \<lparr>threadIndex = index, threadCount = count, useET = enableET, useFileOutput = enableFile,
      outputFileOpen = False, currentFileSize = 0, maxFileSize = 2 * 1024 * 1024 * 1024,
      currentFileNumber = 0, frameBuffer = Map.empty, timestampSlop = tsSlop,
      frameTimeoutMs = timeout, etEventSize = evtSize, expectedStreamCount = numExpectedStreams,
      framesBuilt = 0, slicesProcessed = 0, buildErrors = 0, timestampErrors = 0,
      filesCreated = 0, bytesWritten = 0, etEvents = [], files = []\<rparr>"

text \<open>
  \<^verbatim>\<open>BuilderThread::addTimeSlice\<close>. The lookup \<^verbatim>\<open>frameBuffer[sl.timestamp]\<close> creates a
  default frame when the key is absent; a frame whose timestamp field is 0 is taken to be new.
\<close>

definition BuilderThread_addTimeSlice :: "nat \<Rightarrow> TimeSlice \<Rightarrow> BuilderThread \<Rightarrow> BuilderThread" where
  "BuilderThread_addTimeSlice now sl bt =
     (let frame0 = (case frameBuffer bt (TimeSlice.timestamp sl) of
                      None \<Rightarrow> AggregatedFrame_ctor now
                    | Some f \<Rightarrow> f);
          frame1 = (if AggregatedFrame.timestamp frame0 = 0
                    then frame0\<lparr>AggregatedFrame.timestamp := TimeSlice.timestamp sl,
                                AggregatedFrame.frameNumber := TimeSlice.frameNumber sl,
                                arrivalTime := now\<rparr>
                    else frame0);
          frame2 = addSlice sl frame1
      in bt\<lparr>frameBuffer := (frameBuffer bt)(TimeSlice.timestamp sl \<mapsto> frame2),
             slicesProcessed := slicesProcessed bt + 1\<rparr>)"

text \<open>\<^verbatim>\<open>sendToET\<close>.\<close>

definition sendToET :: "Env \<Rightarrow> u8 list \<Rightarrow> BuilderThread \<Rightarrow> bool \<times> BuilderThread" where
  "sendToET env frameData bt =
     (if \<not> et_events_new_ok env then (False, bt\<lparr>buildErrors := buildErrors bt + 1\<rparr>)
      else if length frameData > et_event_length env
        then (False, bt\<lparr>buildErrors := buildErrors bt + 1\<rparr>)
      else if \<not> et_events_put_ok env then (False, bt\<lparr>buildErrors := buildErrors bt + 1\<rparr>)
      else (True, bt\<lparr>etEvents := etEvents bt @ [frameData],
                       framesBuilt := framesBuilt bt + 1,
                       bytesWritten := bytesWritten bt + of_nat (length frameData)\<rparr>))"

text \<open>The file sink: \<^verbatim>\<open>writeFileHeader\<close>, \<^verbatim>\<open>openNextFile\<close> and \<^verbatim>\<open>writeToFile\<close>.\<close>

definition fileHeader :: "u32 list" where
  "fileHeader = [0x4556494F, 0, 0x0000000E, 0, 0, 0x00000006, 0, 0xC0DA0100, 0, 0, 0, 0, 0, 0]"

definition appendBlock :: "u8 list \<Rightarrow> u8 list list list \<Rightarrow> u8 list list list" where
  "appendBlock block fs = (if fs = [] then fs else butlast fs @ [last fs @ [block]])"

definition writeFileHeader :: "Env \<Rightarrow> BuilderThread \<Rightarrow> bool \<times> BuilderThread" where
  "writeFileHeader env bt =
     (if \<not> file_write_ok env then (False, bt)
      else (True, bt\<lparr>files := appendBlock (swapAndStore fileHeader) (files bt),
                       currentFileSize := currentFileSize bt + 56\<rparr>))"

definition openNextFile :: "Env \<Rightarrow> BuilderThread \<Rightarrow> bool \<times> BuilderThread" where
  "openNextFile env bt =
     (if \<not> file_open_ok env then (False, bt\<lparr>outputFileOpen := False\<rparr>)
      else
        let bt1 = bt\<lparr>outputFileOpen := True, files := files bt @ [[]], currentFileSize := 0,
                      filesCreated := filesCreated bt + 1\<rparr>
        in case writeFileHeader env bt1 of
             (ok, bt2) \<Rightarrow> if \<not> ok then (False, bt2\<lparr>outputFileOpen := False\<rparr>) else (True, bt2))"

definition writeToFile :: "Env \<Rightarrow> u8 list \<Rightarrow> BuilderThread \<Rightarrow> bool \<times> BuilderThread" where
  "writeToFile env frameData bt =
     (case (if \<not> outputFileOpen bt then openNextFile env bt else (True, bt)) of
        (opened, bt1) \<Rightarrow>
          if \<not> opened then (False, bt1\<lparr>buildErrors := buildErrors bt1 + 1\<rparr>)
          else if \<not> file_write_ok env then (False, bt1\<lparr>buildErrors := buildErrors bt1 + 1\<rparr>)
          else
            let bt2 = bt1\<lparr>files := appendBlock frameData (files bt1),
                          currentFileSize := currentFileSize bt1 + of_nat (length frameData),
                          bytesWritten := bytesWritten bt1 + of_nat (length frameData)\<rparr>
            in if currentFileSize bt2 \<ge> maxFileSize bt2
               then openNextFile env (bt2\<lparr>currentFileNumber := currentFileNumber bt2 + 1\<rparr>)
               else (True, bt2))"

text \<open>
  The body of the scan loop of \<^verbatim>\<open>threadFunc\<close> for the buffer entry with key \<open>key\<close>, at clock
  reading \<open>now\<close>: a ready frame is copied, erased from the buffer and encoded; the record goes
  to the sinks only inside \<^verbatim>\<open>if (buildEVIO6Frame(frameCopy, builtFrame))\<close>.
\<close>

definition shouldBuild :: "BuilderThread \<Rightarrow> nat \<Rightarrow> AggregatedFrame \<Rightarrow> bool" where
  "shouldBuild bt now frame \<longleftrightarrow>
     slices frame \<noteq> [] \<and>
     (length (slices frame) \<ge> unat (of_int (expectedStreamCount bt) :: u64)
      \<or> isTimedOut now (frameTimeoutMs bt) frame)"

definition processEntry :: "Env \<Rightarrow> nat \<Rightarrow> u64 \<Rightarrow> BuilderThread \<Rightarrow> BuilderThread" where
  "processEntry env now key bt =
     (case frameBuffer bt key of
        None \<Rightarrow> bt
      | Some frame \<Rightarrow>
          if shouldBuild bt now frame then
            let frameCopy = frame;
                bt1 = bt\<lparr>frameBuffer := (frameBuffer bt)(key := None)\<rparr>;
                bt2 = (if checkTimestampConsistency (timestampSlop bt1) frameCopy
                       then bt1\<lparr>timestampErrors := timestampErrors bt1 + 1\<rparr> else bt1);
                built = buildEVIO6Frame (timestampSlop bt2) frameCopy
            in if fst built then
                 let sent = (if useET bt2 then sendToET env (snd built) bt2 else (True, bt2));
                     bt3 = snd sent;
                     written = (if useFileOutput bt3 then writeToFile env (snd built) bt3
                                else (True, bt3));
                     bt4 = snd written;
                     success = (fst written \<and> fst sent)
                 in if success then bt4\<lparr>framesBuilt := framesBuilt bt4 + 1\<rparr> else bt4
               else bt2
          else bt)"

section \<open>The \<^verbatim>\<open>FrameBuilder\<close> facade\<close>

datatype error = invalid_argument string

record FrameBuilder =
  etSystemFile :: string
  etHostName :: string
  etPort :: int
  etEventSize :: int
  enableET :: bool
  enableFileOutput :: bool
  fileOutputDir :: string
  fileOutputPrefix :: string
  builderThreadCount :: int
  builderThreads :: "BuilderThread list"
  running :: bool
  slicesAggregated :: u64
  timestampSlop :: int
  frameTimeoutMs :: int
  expectedStreams :: int

text \<open>The constructor; its only check is that an output is enabled.\<close>

definition FrameBuilder_ctor ::
  "string \<Rightarrow> string \<Rightarrow> int \<Rightarrow> string \<Rightarrow> string \<Rightarrow> int \<Rightarrow> int \<Rightarrow> int \<Rightarrow> int \<Rightarrow> int
     \<Rightarrow> error + FrameBuilder" where
  "FrameBuilder_ctor etFile etHost port fileDir filePrefix numBuilderThreads eventSize tsSlop
       timeout numExpectedStreams =
     (let fb = \<lparr>etSystemFile = etFile, etHostName = etHost, etPort = port,
                 etEventSize = eventSize, enableET = (etFile \<noteq> []),
                 enableFileOutput = (fileDir \<noteq> []), fileOutputDir = fileDir,
                 fileOutputPrefix = filePrefix, builderThreadCount = numBuilderThreads,
                 builderThreads = [], running = False, slicesAggregated = 0,
                 timestampSlop = tsSlop, frameTimeoutMs = timeout,
                 expectedStreams = numExpectedStreams\<rparr>
      in if \<not> enableET fb \<and> \<not> enableFileOutput fb then Inl (invalid_argument ''No output enabled'')
         else Inr fb)"

text \<open>
  \<^verbatim>\<open>FrameBuilder::start\<close>: \<open>ioOk\<close> says whether the ET system could be opened and the
  output directory created; then one builder thread per index below the thread count is made.
\<close>

definition FrameBuilder_start :: "bool \<Rightarrow> FrameBuilder \<Rightarrow> bool \<times> FrameBuilder" where
  "FrameBuilder_start ioOk fb =
     (if \<not> ioOk then (False, fb)
      else (True,
            fb\<lparr>builderThreads := builderThreads fb @
                   map (\<lambda>i. BuilderThread_ctor (int i) (builderThreadCount fb)
                              (FrameBuilder.timestampSlop fb) (FrameBuilder.frameTimeoutMs fb)
                              (FrameBuilder.etEventSize fb) (enableET fb) (enableFileOutput fb)
                              (expectedStreams fb))
                       [0 ..< nat (builderThreadCount fb)],
                running := True\<rparr>))"

text \<open>
  \<^verbatim>\<open>FrameBuilder::addTimeSlice\<close>. The thread index is
  \<^verbatim>\<open>static_cast<int>(timestamp % builderThreadCount)\<close>, computed in 64 bits without sign. A
  zero thread count or an index outside the vector of threads is undefined behaviour in the
  source; the model returns \<open>None\<close> there.
\<close>

definition FrameBuilder_addTimeSlice ::
  "nat \<Rightarrow> u64 \<Rightarrow> u32 \<Rightarrow> u16 \<Rightarrow> u8 list \<Rightarrow> FrameBuilder \<Rightarrow> FrameBuilder option" where
  "FrameBuilder_addTimeSlice now ts frame ident data fb =
     (if (of_int (builderThreadCount fb) :: u64) = 0 then None
      else
        let threadIndex = sint (ucast (ts mod of_int (builderThreadCount fb)) :: u32);
            sl = TimeSlice_ctor ts frame ident data
        in if threadIndex < 0 \<or> threadIndex \<ge> int (length (builderThreads fb)) then None
           else Some (fb\<lparr>builderThreads :=
                            (builderThreads fb)[nat threadIndex :=
                               BuilderThread_addTimeSlice now sl
                                 (builderThreads fb ! nat threadIndex)],
                          slicesAggregated := slicesAggregated fb + 1\<rparr>))"

text \<open>
  The worker of thread \<open>i\<close> handling one buffer entry, seen from the facade.
\<close>

definition workerStep :: "Env \<Rightarrow> nat \<Rightarrow> nat \<Rightarrow> u64 \<Rightarrow> FrameBuilder \<Rightarrow> FrameBuilder" where
  "workerStep env now i key fb =
     (if i < length (builderThreads fb)
      then fb\<lparr>builderThreads :=
                 (builderThreads fb)[i := processEntry env now key (builderThreads fb ! i)]\<rparr>
      else fb)"

text \<open>
  A run of the pipeline: producers submit slices and workers handle buffer entries, in any
  interleaving. \<open>run\<close> stops with \<open>None\<close> where a submission is undefined.
\<close>

datatype event =
  Submit nat u64 u32 u16 "u8 list"
  | Work Env nat nat u64

fun run :: "event list \<Rightarrow> FrameBuilder \<Rightarrow> FrameBuilder option" where
  "run [] fb = Some fb"
| "run (Submit now ts frame ident data # evs) fb =
     (case FrameBuilder_addTimeSlice now ts frame ident data fb of
        None \<Rightarrow> None
      | Some fb' \<Rightarrow> run evs fb')"
| "run (Work env now i key # evs) fb = run evs (workerStep env now i key fb)"

section \<open>Stopping the builder threads\<close>













section \<open>Notions used to state the properties\<close>

text \<open>A slice passes step 1 when it takes neither \<^verbatim>\<open>continue\<close> branch of the loop.\<close>

definition validSlice :: "TimeSlice \<Rightarrow> bool" where
  "validSlice sl \<longleftrightarrow>
     \<not> length (payload sl) < 32 \<and>
     \<not> (load_u32 (payload sl) 7 \<noteq> 0xc0da0100 \<and> load_u32 (payload sl) 7 \<noteq> 0x0001dac0)"

text \<open>The ROC banks that step 1 retains, and a bank followed by its zero padding.\<close>

definition retainedBanks :: "AggregatedFrame \<Rightarrow> u8 list list" where
  "retainedBanks frame = map (\<lambda>sl. drop 32 (payload sl)) (filter validSlice (slices frame))"

definition paddedBank :: "u8 list \<Rightarrow> u8 list" where
  "paddedBank rocBank = rocBank @ replicate ((4 - length rocBank mod 4) mod 4) 0"

definition paddedBanks :: "u8 list list \<Rightarrow> u8 list" where
  "paddedBanks rocBanks = concat (map paddedBank rocBanks)"

text \<open>
  Fields of an emitted record \<open>B\<close>: the stream-status byte \<open>SS\<close> is the low byte of the
  aggregated bank header (word 15); the time-slice segment carries the timestamp in words 20
  (low half) and 21 (high half); the length field of the aggregation-info segment is the low
  16 bits of word 22 and its entries start at word 23.
\<close>

definition streamStatusByte :: "u8 list \<Rightarrow> u8" where
  "streamStatusByte B = ucast (read_be_u32 B 15)"


definition aisLength :: "u8 list \<Rightarrow> nat" where
  "aisLength B = unat (read_be_u32 B 22 AND 0xFFFF)"

definition aisEntryAt :: "u8 list \<Rightarrow> nat \<Rightarrow> u32" where
  "aisEntryAt B i = read_be_u32 B (23 + i)"

text \<open>
  The status word that \<^verbatim>\<open>buildEVIO6Frame\<close> computes before its validation loop, and the
  metadata words it has after step 6.
\<close>

definition statusWord :: "int \<Rightarrow> AggregatedFrame \<Rightarrow> u32" where
  "statusWord tsSlop frame =
     push_bit 7 (if checkTimestampConsistency tsSlop frame then 1 else 0)
     OR (of_nat (length (slices frame)) AND 0x7F)"

definition eventWordsOf :: "int \<Rightarrow> AggregatedFrame \<Rightarrow> u32 list" where
  "eventWordsOf tsSlop frame =
     fillLengths
       (metadataWords (of_nat (length (slices frame))) (statusWord tsSlop frame)
          (calculateAverageTimestamp frame) frame)
       (retainedBanks frame)"

section \<open>Example inputs\<close>

text \<open>
  A payload with the 8-word prefix (word 7 holds the magic number, most significant byte
  first) followed by 16 bytes \<open>0xAA\<close>; a slice that carries it; a slice whose payload is
  shorter than the prefix; and frames made of them.
\<close>

definition examplePayload :: "u8 list" where
  "examplePayload = replicate 28 0 @ [0xC0, 0xDA, 0x01, 0x00] @ replicate 16 0xAA"

definition sliceA :: TimeSlice where
  "sliceA = TimeSlice_ctor 0x10 7 0x2A examplePayload"

definition sliceShort :: TimeSlice where
  "sliceShort = TimeSlice_ctor 0x10 7 0x2B [0, 0, 0, 0]"

definition frameOne :: AggregatedFrame where
  "frameOne = \<lparr>AggregatedFrame.timestamp = 0x10, AggregatedFrame.frameNumber = 7,
                slices = [sliceA], arrivalTime = 0\<rparr>"

definition frameDropped :: AggregatedFrame where
  "frameDropped = \<lparr>AggregatedFrame.timestamp = 0x10, AggregatedFrame.frameNumber = 7,
                    slices = [sliceA, sliceShort], arrivalTime = 0\<rparr>"

definition frameMixed :: AggregatedFrame where
  "frameMixed = \<lparr>AggregatedFrame.timestamp = 100, AggregatedFrame.frameNumber = 7,
                  slices = [TimeSlice_ctor 100 7 1 examplePayload,
                            TimeSlice_ctor 200 7 2 [0, 0, 0, 0]],
                  arrivalTime = 0\<rparr>"

text \<open>
  A builder thread with both sinks enabled that expects two streams, an environment in which
  every call of the ET library and of the file system succeeds, the thread after a valid and a
  too small slice of timestamp \<open>0x10\<close> were added, and two slices of timestamp 0.
\<close>

definition exampleThread :: BuilderThread where
  "exampleThread = BuilderThread_ctor 0 1 100 1000 1048576 True True 2"

definition exampleEnv :: Env where
  "exampleEnv = \<lparr>et_events_new_ok = True, et_event_length = 1048576, et_events_put_ok = True,
                  file_open_ok = True, file_write_ok = True\<rparr>"

definition droppedThread :: BuilderThread where
  "droppedThread =
     BuilderThread_addTimeSlice 1 sliceShort (BuilderThread_addTimeSlice 0 sliceA exampleThread)"

definition zeroSliceFirst :: TimeSlice where
  "zeroSliceFirst = TimeSlice_ctor 0 7 1 examplePayload"

definition zeroSliceSecond :: TimeSlice where
  "zeroSliceSecond = TimeSlice_ctor 0 9 2 examplePayload"

text \<open>
  The invariant of the pipeline behind claim C10: every slice of every buffered frame has
  stream status 0, and every record that reached a sink has aggregation-info entries whose low
  16 bits are zero. A block of a file is either the 56-byte file header or a record.
\<close>

definition statusZero :: "AggregatedFrame \<Rightarrow> bool" where
  "statusZero frame \<longleftrightarrow> list_all (\<lambda>sl. streamStatus sl = 0) (slices frame)"

definition aisLowBitsZero :: "u8 list \<Rightarrow> bool" where
  "aisLowBitsZero B \<longleftrightarrow> list_all (\<lambda>i. aisEntryAt B i AND 0xFFFF = 0) [0 ..< aisLength B]"

definition threadInv :: "BuilderThread \<Rightarrow> bool" where
  "threadInv bt \<longleftrightarrow>
     (\<forall>frame \<in> ran (frameBuffer bt). statusZero frame)
     \<and> (\<forall>B \<in> set (etEvents bt). aisLowBitsZero B)
     \<and> (\<forall>file \<in> set (files bt). \<forall>B \<in> set file. B = swapAndStore fileHeader \<or> aisLowBitsZero B)"

definition fbInv :: "FrameBuilder \<Rightarrow> bool" where
  "fbInv fb \<longleftrightarrow> list_all threadInv (builderThreads fb)"

text \<open>
  A frame builder with one thread and ET output only, as the constructor and
  \<^verbatim>\<open>start\<close> make it, and a run in which one slice is submitted and the worker then handles
  the buffer entry of its timestamp.
\<close>

definition exampleBuilder0 :: FrameBuilder where
  "exampleBuilder0 =
     projr (FrameBuilder_ctor ''/tmp/et_sys'' [] 0 [] ''frames'' 1 1048576 100 1000 1)"

definition exampleBuilder :: FrameBuilder where
  "exampleBuilder = snd (FrameBuilder_start True exampleBuilder0)"

definition exampleEvents :: "event list" where
  "exampleEvents = [Submit 0 0x10 7 0x2A examplePayload, Work exampleEnv 5 0 0x10]"

definition exampleFinal :: FrameBuilder where
  "exampleFinal = the (run exampleEvents exampleBuilder)"

text \<open>The single thread of that frame builder after the slice was submitted.\<close>

definition exampleWorker :: BuilderThread where
  "exampleWorker =
     BuilderThread_addTimeSlice 0 sliceA (BuilderThread_ctor 0 1 100 1000 1048576 True False 1)"
















section \<open>Words of the output buffer\<close>

lemma mask_byte0: "(0xFF :: u32) = mask 8"
  by (simp add: mask_eq_exp_minus_1)

lemma mask_byte1: "(0xFF00 :: u32) = push_bit 8 (mask 8)"
  by (simp add: mask_eq_exp_minus_1 push_bit_eq_mult)

lemma mask_byte2: "(0xFF0000 :: u32) = push_bit 16 (mask 8)"
  by (simp add: mask_eq_exp_minus_1 push_bit_eq_mult)

lemma mask_byte3: "(0xFF000000 :: u32) = push_bit 24 (mask 8)"
  by (simp add: mask_eq_exp_minus_1 push_bit_eq_mult)

lemma bit_byte_of_word:
  "bit (ucast (drop_bit k (v::u32)) :: u8) n \<longleftrightarrow> n < 8 \<and> bit v (k + n)"
  by (simp add: bit_ucast_iff bit_drop_bit_eq)

lemma bit_low_byte_of_word: "bit (ucast (v::u32) :: u8) n \<longleftrightarrow> n < 8 \<and> bit v n"
  by (simp add: bit_ucast_iff)

lemmas bswap_bits =
  bit_byte_of_word bit_low_byte_of_word bswap32_def mask_byte0 mask_byte1 mask_byte2 mask_byte3
  bit_or_iff bit_and_iff bit_push_bit_iff bit_drop_bit_eq bit_mask_iff o_def

lemma bswap32_byte0: "(ucast (bswap32 v) :: u8) = ucast (drop_bit 24 v)"
  apply (rule bit_word_eqI)
  apply (simp only: bswap_bits)
  apply (auto dest: bit_imp_le_length)
  done

lemma bswap32_byte1: "(ucast (drop_bit 8 (bswap32 v)) :: u8) = ucast (drop_bit 16 v)"
  apply (rule bit_word_eqI)
  apply (simp only: bswap_bits)
  apply (auto dest: bit_imp_le_length simp: add.commute)
  done

lemma bswap32_byte2: "(ucast (drop_bit 16 (bswap32 v)) :: u8) = ucast (drop_bit 8 v)"
  apply (rule bit_word_eqI)
  apply (simp only: bswap_bits)
  apply (auto dest: bit_imp_le_length simp: add.commute)
  done

lemma bswap32_byte3: "(ucast (drop_bit 24 (bswap32 v)) :: u8) = ucast v"
  apply (rule bit_word_eqI)
  apply (simp only: bswap_bits)
  apply (auto dest: bit_imp_le_length simp: add.commute)
  done

lemma bytes_recompose:
  "push_bit 24 (ucast (ucast (drop_bit 24 v) :: u8))
     OR push_bit 16 (ucast (ucast (drop_bit 16 v) :: u8))
     OR push_bit 8 (ucast (ucast (drop_bit 8 v) :: u8)) OR ucast (ucast v :: u8) = (v :: u32)"
proof (rule bit_word_eqI)
  fix n :: nat
  assume "n < LENGTH(32)"
  then have "n < 32" by simp
  then consider "n < 8" | "8 \<le> n \<and> n < 16" | "16 \<le> n \<and> n < 24" | "24 \<le> n \<and> n < 32"
    by linarith
  then show "bit (push_bit 24 (ucast (ucast (drop_bit 24 v) :: u8))
     OR push_bit 16 (ucast (ucast (drop_bit 16 v) :: u8))
     OR push_bit 8 (ucast (ucast (drop_bit 8 v) :: u8)) OR (ucast (ucast v :: u8) :: u32)) n
     = bit v n"
    by cases (auto simp add: bit_or_iff bit_push_bit_iff bit_ucast_iff bit_drop_bit_eq)
qed

lemma read_be_store: "read_be_u32 (store_u32 (bswap32 v) @ rest) 0 = v"
  by (simp add: read_be_u32_def store_u32_def bswap32_byte0 bswap32_byte1 bswap32_byte2
      bswap32_byte3 bytes_recompose)

lemma read_be_skip: "length w = 4 \<Longrightarrow> read_be_u32 (w @ rest) (Suc i) = read_be_u32 rest i"
  by (simp add: read_be_u32_def nth_append add.commute)

lemma length_store_u32: "length (store_u32 v) = 4"
  by (simp add: store_u32_def)

lemma read_be_swapAndStore:
  "i < length ws \<Longrightarrow> read_be_u32 (swapAndStore ws @ rest) i = ws ! i"
proof (induction ws arbitrary: i)
  case Nil
  then show ?case by simp
next
  case (Cons w ws)
  show ?case
  proof (cases i)
    case 0
    then show ?thesis by (simp add: swapAndStore_def read_be_store)
  next
    case (Suc j)
    then have "j < length ws" using Cons.prems by simp
    then have "read_be_u32 (swapAndStore ws @ rest) j = ws ! j" by (rule Cons.IH)
    then show ?thesis using Suc
      by (simp add: swapAndStore_def read_be_skip length_store_u32)
  qed
qed

lemma length_swapAndStore: "length (swapAndStore ws) = 4 * length ws"
  by (induction ws) (simp_all add: swapAndStore_def length_store_u32)

section \<open>The loops of the encoder in closed form\<close>

lemma validate_loop_eq:
  "validate_loop ss (e, banks) =
     (e \<or> (\<exists>s\<in>set ss. \<not> validSlice s),
      banks @ map (\<lambda>sl. drop 32 (payload sl)) (filter validSlice ss))"
  by (induction ss arbitrary: e banks) (auto simp add: validSlice_def Let_def)

lemma pad4_eq: "pad4 out = out @ replicate ((4 - length out mod 4) mod 4) 0"
proof (induction out rule: pad4.induct)
  case (1 out)
  show ?case
  proof (cases "length out mod 4 = 0")
    case True
    then show ?thesis by (subst pad4.simps) simp
  next
    case False
    have "length out mod 4 < 4" by simp
    then consider "length out mod 4 = 1" | "length out mod 4 = 2" | "length out mod 4 = 3"
      using False by linarith
    then have r: "(4 - length out mod 4) mod 4 = Suc ((4 - Suc (length out) mod 4) mod 4)"
      by cases (simp_all add: mod_Suc)
    have "pad4 out = pad4 (out @ [0])" using False by (subst pad4.simps) simp
    also have "\<dots> = (out @ [0]) @ replicate ((4 - Suc (length out) mod 4) mod 4) 0"
      using 1 False by simp
    also have "\<dots> = out @ replicate ((4 - length out mod 4) mod 4) 0"
      unfolding r by simp
    finally show ?thesis .
  qed
qed

lemma length_paddedBank_mod: "length (paddedBank b) mod 4 = 0"
proof -
  have e: "(length b + (4 - length b mod 4) mod 4) mod 4 =
      (length b mod 4 + (4 - length b mod 4) mod 4) mod 4"
    by (simp add: mod_add_left_eq)
  have "length b mod 4 < 4" by simp
  then consider "length b mod 4 = 0" | "length b mod 4 = 1" | "length b mod 4 = 2" | "length b mod 4 = 3"
    by linarith
  then have "(length b mod 4 + (4 - length b mod 4) mod 4) mod 4 = 0"
    by cases simp_all
  then show ?thesis using e by (simp add: paddedBank_def)
qed

lemma length_paddedBanks_mod: "length (paddedBanks bs) mod 4 = 0"
proof (induction bs)
  case Nil
  then show ?case by (simp add: paddedBanks_def)
next
  case (Cons b bs)
  have "length (paddedBanks (b # bs)) = length (paddedBank b) + length (paddedBanks bs)"
    by (simp add: paddedBanks_def)
  then show ?case using Cons length_paddedBank_mod [of b]
    by (simp add: mod_add_eq [symmetric, of "length (paddedBank b)"])
qed

lemma pad4_append:
  "length out mod 4 = 0 \<Longrightarrow> pad4 (out @ b) = out @ paddedBank b"
proof -
  assume a: "length out mod 4 = 0"
  have "(length out + length b) mod 4 = length b mod 4"
    using a by (simp add: mod_add_left_eq [symmetric, of "length out"])
  then show ?thesis by (simp add: pad4_eq paddedBank_def)
qed

lemma appendRocBanks_eq:
  "length out mod 4 = 0 \<Longrightarrow> appendRocBanks bs out = out @ paddedBanks bs"
proof (induction bs arbitrary: out)
  case Nil
  then show ?case by (simp add: paddedBanks_def)
next
  case (Cons b bs)
  have l: "length (out @ paddedBank b) mod 4 = 0"
    using Cons.prems length_paddedBank_mod [of b]
    by (simp add: mod_add_eq [symmetric, of "length out"])
  have "appendRocBanks (b # bs) out = appendRocBanks bs (out @ paddedBank b)"
    using Cons.prems by (simp add: pad4_append)
  also have "\<dots> = (out @ paddedBank b) @ paddedBanks bs"
    using l by (rule Cons.IH)
  finally show ?case by (simp add: paddedBanks_def)
qed

lemma totalPayloadBytes_loop_eq:
  "totalPayloadBytes_loop bs acc = acc + length (paddedBanks bs)"
proof (induction bs arbitrary: acc)
  case Nil
  then show ?case by (simp add: paddedBanks_def)
next
  case (Cons b bs)
  have "length b mod 4 < 4" by simp
  then consider "length b mod 4 = 0" | "length b mod 4 = 1" | "length b mod 4 = 2" | "length b mod 4 = 3"
    by linarith
  then have v: "(if length b mod 4 \<noteq> 0 then acc + length b + (4 - length b mod 4)
      else acc + length b) = acc + length (paddedBank b)"
    by cases (simp_all add: paddedBank_def)
  have step: "totalPayloadBytes_loop (b # bs) acc =
      totalPayloadBytes_loop bs (acc + length (paddedBank b))"
    by (simp only: totalPayloadBytes_loop.simps v)
  show ?case unfolding step Cons by (simp add: paddedBanks_def)
qed

section \<open>The shape of the output buffer\<close>

lemma length_metadataWords:
  "length (metadataWords c st ts frame) = 23 + length (slices frame)"
  by (simp add: metadataWords_def recordHeader_def)

lemma fillLengths_eq:
  "fillLengths ws banks =
     (ws[16 := of_nat (length ws - 16 - 1),
         14 := of_nat (length ws - 14 - 1 + length (paddedBanks banks) div 4),
         0 := of_nat (14 + (length ws - 14 - 1 + length (paddedBanks banks) div 4) + 1),
         8 := of_nat (14 + (length ws - 14 - 1 + length (paddedBanks banks) div 4) + 1 - 14)])"
  by (simp add: fillLengths_def Let_def totalPayloadBytes_loop_eq)

lemma length_fillLengths: "length (fillLengths ws banks) = length ws"
  by (simp add: fillLengths_eq)

lemma length_eventWordsOf: "length (eventWordsOf slop frame) = 23 + length (slices frame)"
  by (simp add: eventWordsOf_def length_fillLengths length_metadataWords)

lemma buildEVIO6Frame_eq:
  "buildEVIO6Frame slop frame =
     (if retainedBanks frame = [] then (False, [])
      else (\<not> (checkTimestampConsistency slop frame \<or> (\<exists>s\<in>set (slices frame). \<not> validSlice s)),
            swapAndStore (eventWordsOf slop frame) @ paddedBanks (retainedBanks frame)))"
proof -
  have v: "validate_loop (slices frame) (checkTimestampConsistency slop frame, []) =
      (checkTimestampConsistency slop frame \<or> (\<exists>s\<in>set (slices frame). \<not> validSlice s),
       retainedBanks frame)"
    by (simp add: validate_loop_eq retainedBanks_def)
  have l: "length (swapAndStore (eventWordsOf slop frame)) mod 4 = 0"
    by (simp add: length_swapAndStore)
  show ?thesis
    unfolding buildEVIO6Frame_def Let_def v
    using appendRocBanks_eq [OF l, of "retainedBanks frame"]
    by (simp add: eventWordsOf_def statusWord_def)
qed

lemma emitted_iff: "snd (buildEVIO6Frame slop frame) \<noteq> [] \<longleftrightarrow> retainedBanks frame \<noteq> []"
proof -
  have "swapAndStore (eventWordsOf slop frame) \<noteq> []"
    using length_swapAndStore [of "eventWordsOf slop frame"] length_eventWordsOf [of slop frame]
    by auto
  then show ?thesis by (simp add: buildEVIO6Frame_eq)
qed

lemma word_of_output:
  assumes "snd (buildEVIO6Frame slop frame) \<noteq> []" and "i < 23 + length (slices frame)"
  shows "read_be_u32 (snd (buildEVIO6Frame slop frame)) i = eventWordsOf slop frame ! i"
proof -
  have r: "retainedBanks frame \<noteq> []" using assms(1) by (simp add: emitted_iff)
  have "i < length (eventWordsOf slop frame)" using assms(2) by (simp add: length_eventWordsOf)
  then show ?thesis using r by (simp add: buildEVIO6Frame_eq read_be_swapAndStore)
qed

lemma length_output:
  assumes "snd (buildEVIO6Frame slop frame) \<noteq> []"
  shows "length (snd (buildEVIO6Frame slop frame)) =
     4 * (23 + length (slices frame)) + length (paddedBanks (retainedBanks frame))"
proof -
  have r: "retainedBanks frame \<noteq> []" using assms(1) by (simp add: emitted_iff)
  then show ?thesis by (simp add: buildEVIO6Frame_eq length_swapAndStore length_eventWordsOf)
qed

lemma eventWordsOf_nth:
  assumes "i < 23 + length (slices frame)"
  shows "eventWordsOf slop frame ! i =
     (if i = 8 then of_nat (9 + length (slices frame) + length (paddedBanks (retainedBanks frame)) div 4)
      else if i = 0 then of_nat (23 + length (slices frame) + length (paddedBanks (retainedBanks frame)) div 4)
      else if i = 14 then of_nat (8 + length (slices frame) + length (paddedBanks (retainedBanks frame)) div 4)
      else if i = 16 then of_nat (6 + length (slices frame))
      else metadataWords (of_nat (length (slices frame))) (statusWord slop frame)
             (calculateAverageTimestamp frame) frame ! i)"
  using assms
  unfolding eventWordsOf_def fillLengths_eq length_metadataWords
  by (simp add: nth_list_update length_metadataWords)

lemma metadataWords_split:
  "metadataWords c st ts frame =
     [0, 0, 14, 1, 0, bitInfo, 0, 0xc0da0100, 0, 0, 0, 0, 0, 0,
      0, push_bit 16 0xFF60 OR push_bit 8 0x10 OR st,
      0, push_bit 16 0xFF31 OR push_bit 8 0x20 OR st,
      push_bit 24 0x32 OR push_bit 16 0x01 OR 3,
      AggregatedFrame.frameNumber frame,
      ucast (ts AND 0xFFFFFFFF),
      ucast (drop_bit 32 ts AND 0xFFFFFFFF),
      push_bit 24 0x42 OR push_bit 16 0x01 OR c]
     @ map aisEntry (slices frame)"
  by (simp add: metadataWords_def recordHeader_def)

lemma metadataWords_fixed:
  "metadataWords c st ts frame ! 1 = 0"
  "metadataWords c st ts frame ! 3 = 1"
  "metadataWords c st ts frame ! 6 = 0"
  "metadataWords c st ts frame ! 9 = 0"
  "metadataWords c st ts frame ! 10 = 0"
  "metadataWords c st ts frame ! 11 = 0"
  "metadataWords c st ts frame ! 12 = 0"
  "metadataWords c st ts frame ! 13 = 0"
  "metadataWords c st ts frame ! 15 = push_bit 16 0xFF60 OR push_bit 8 0x10 OR st"
  "metadataWords c st ts frame ! 17 = push_bit 16 0xFF31 OR push_bit 8 0x20 OR st"
  "metadataWords c st ts frame ! 19 = AggregatedFrame.frameNumber frame"
  "metadataWords c st ts frame ! 20 = ucast (ts AND 0xFFFFFFFF)"
  "metadataWords c st ts frame ! 21 = ucast (drop_bit 32 ts AND 0xFFFFFFFF)"
  "metadataWords c st ts frame ! 22 = push_bit 24 0x42 OR push_bit 16 0x01 OR c"
  by (simp_all add: metadataWords_split del: push_bit_numeral)

lemma metadataWords_ais:
  assumes "i < length (slices frame)"
  shows "metadataWords c st ts frame ! (23 + i) = aisEntry (slices frame ! i)"
proof -
  have "metadataWords c st ts frame ! (23 + i) = map aisEntry (slices frame) ! i"
    unfolding metadataWords_split by (simp add: nth_append del: push_bit_numeral)
  then show ?thesis using assms by simp
qed

lemma output_word:
  assumes "buildEVIO6Frame slop frame = (ok, B)" and "B \<noteq> []"
    and "i < 23 + length (slices frame)"
  shows "read_be_u32 B i = eventWordsOf slop frame ! i"
  using word_of_output [of slop frame i] assms by simp

lemma output_length:
  assumes "buildEVIO6Frame slop frame = (ok, B)" and "B \<noteq> []"
  shows "length B = 4 * (23 + length (slices frame) + length (paddedBanks (retainedBanks frame)) div 4)"
proof -
  have "length B = 4 * (23 + length (slices frame)) + length (paddedBanks (retainedBanks frame))"
    using length_output [of slop frame] assms by simp
  moreover have "4 * (length (paddedBanks (retainedBanks frame)) div 4) =
      length (paddedBanks (retainedBanks frame))"
    using length_paddedBanks_mod [of "retainedBanks frame"] by (simp add: mod_eq_0_iff_dvd)
  ultimately show ?thesis by simp
qed

lemma output_payload:
  assumes "buildEVIO6Frame slop frame = (ok, B)" and "B \<noteq> []"
  shows "drop (4 * (23 + length (slices frame))) B = paddedBanks (retainedBanks frame)"
proof -
  have r: "retainedBanks frame \<noteq> []" using assms emitted_iff [of slop frame] by simp
  have "B = swapAndStore (eventWordsOf slop frame) @ paddedBanks (retainedBanks frame)"
    using assms(1) r by (simp add: buildEVIO6Frame_eq)
  then show ?thesis by (simp add: length_swapAndStore length_eventWordsOf)
qed

section \<open>Facts about the example inputs\<close>

lemma load_magic_example: "load_u32 examplePayload 7 = 0x0001dac0"
  by (simp add: load_u32_def examplePayload_def nth_append)

lemma validSlice_example: "validSlice (TimeSlice_ctor ts fn ident examplePayload)"
  by (simp add: validSlice_def TimeSlice_ctor_def load_magic_example) (simp add: examplePayload_def)

lemma not_validSlice_short: "\<not> validSlice (TimeSlice_ctor ts fn ident [0, 0, 0, 0])"
  by (simp add: validSlice_def TimeSlice_ctor_def)

lemma retainedBanks_frameOne: "retainedBanks frameOne = [replicate 16 0xAA]"
  by (simp add: retainedBanks_def frameOne_def sliceA_def validSlice_example)
     (simp add: TimeSlice_ctor_def examplePayload_def)

lemma retainedBanks_frameDropped: "retainedBanks frameDropped = [replicate 16 0xAA]"
  by (simp add: retainedBanks_def frameDropped_def sliceA_def sliceShort_def validSlice_example
      not_validSlice_short)
     (simp add: TimeSlice_ctor_def examplePayload_def)

lemma retainedBanks_frameMixed: "retainedBanks frameMixed = [replicate 16 0xAA]"
  by (simp add: retainedBanks_def frameMixed_def validSlice_example not_validSlice_short)
     (simp add: TimeSlice_ctor_def examplePayload_def)

lemma emitted_frameOne: "snd (buildEVIO6Frame slop frameOne) \<noteq> []"
  by (simp add: emitted_iff retainedBanks_frameOne)

lemma emitted_frameDropped: "snd (buildEVIO6Frame slop frameDropped) \<noteq> []"
  by (simp add: emitted_iff retainedBanks_frameDropped)

lemma emitted_frameMixed: "snd (buildEVIO6Frame slop frameMixed) \<noteq> []"
  by (simp add: emitted_iff retainedBanks_frameMixed)

lemma count_frameOne: "length (slices frameOne) = 1"
  by (simp add: frameOne_def)

lemma padded_frameOne: "length (paddedBanks (retainedBanks frameOne)) = 16"
  by (simp add: retainedBanks_frameOne paddedBanks_def paddedBank_def)

section \<open>The length fields of a record (C5)\<close>



lemma pair_of_build:
  "buildEVIO6Frame slop frame = (fst (buildEVIO6Frame slop frame), snd (buildEVIO6Frame slop frame))"
  by simp

section \<open>The constant words of the record header (C6)\<close>

text \<open>
  Claim C6 says that words 1, 3, 6, 9, 10, 11, 12 and 13 of the record header are zero in every
  emitted record. Word 3 is the event index count, which the encoder sets to 1: the claim fails
  there, on the record built from a single valid slice.
\<close>

theorem C6_frameOne_word3_counterexample:
  "snd (buildEVIO6Frame 100 frameOne) \<noteq> []
   \<and> read_be_u32 (snd (buildEVIO6Frame 100 frameOne)) 3 \<noteq> 0"
proof -
  have e: "snd (buildEVIO6Frame 100 frameOne) \<noteq> []" by (rule emitted_frameOne)
  have "read_be_u32 (snd (buildEVIO6Frame 100 frameOne)) 3 = 1"
    using output_word [OF pair_of_build e, of 3]
    by (simp add: eventWordsOf_nth metadataWords_fixed)
  then show ?thesis using e by simp
qed

text \<open>
  Claim C6 as amended: in every record the encoder produces, words 1, 6, 9, 10, 11, 12 and 13
  of the record header are zero and word 3 is 1.
\<close>

theorem C6_header_constant_words:
  assumes "buildEVIO6Frame slop frame = (ok, B)" and "B \<noteq> []"
  shows "read_be_u32 B 1 = 0 \<and> read_be_u32 B 3 = 1 \<and> read_be_u32 B 6 = 0
       \<and> read_be_u32 B 9 = 0 \<and> read_be_u32 B 10 = 0 \<and> read_be_u32 B 11 = 0
       \<and> read_be_u32 B 12 = 0 \<and> read_be_u32 B 13 = 0"
proof -
  have w1: "read_be_u32 B 1 = 0"
    using output_word [OF assms, of 1] metadataWords_fixed(1)
    by (simp add: eventWordsOf_nth)
  have w3: "read_be_u32 B 3 = 1"
    using output_word [OF assms, of 3] by (simp add: eventWordsOf_nth metadataWords_fixed)
  have w6: "read_be_u32 B 6 = 0"
    using output_word [OF assms, of 6] by (simp add: eventWordsOf_nth metadataWords_fixed)
  have w9: "read_be_u32 B 9 = 0"
    using output_word [OF assms, of 9] by (simp add: eventWordsOf_nth metadataWords_fixed)
  have w10: "read_be_u32 B 10 = 0"
    using output_word [OF assms, of 10] by (simp add: eventWordsOf_nth metadataWords_fixed)
  have w11: "read_be_u32 B 11 = 0"
    using output_word [OF assms, of 11] by (simp add: eventWordsOf_nth metadataWords_fixed)
  have w12: "read_be_u32 B 12 = 0"
    using output_word [OF assms, of 12] by (simp add: eventWordsOf_nth metadataWords_fixed)
  have w13: "read_be_u32 B 13 = 0"
    using output_word [OF assms, of 13] by (simp add: eventWordsOf_nth metadataWords_fixed)
  show ?thesis using w1 w3 w6 w9 w10 w11 w12 w13 by simp
qed

theorem C6_header_constant_words_witness:
  "snd (buildEVIO6Frame 100 frameOne) \<noteq> []
   \<and> read_be_u32 (snd (buildEVIO6Frame 100 frameOne)) 1 = 0
   \<and> read_be_u32 (snd (buildEVIO6Frame 100 frameOne)) 3 = 1
   \<and> read_be_u32 (snd (buildEVIO6Frame 100 frameOne)) 13 = 0"
  using C6_header_constant_words [OF pair_of_build emitted_frameOne, of 100] emitted_frameOne [of 100]
  by blast

section \<open>The stream-status byte\<close>

lemma low_byte_or: "(ucast (push_bit 8 (h::u32) OR st) :: u8) = ucast st"
  by (rule bit_word_eqI) (simp add: bit_ucast_iff bit_or_iff bit_push_bit_iff)

lemma status_low_byte:
  "(ucast (push_bit 16 (0xFF60 :: u32) OR push_bit 8 0x10 OR st) :: u8) = ucast st"
proof -
  have "push_bit 16 (0xFF60 :: u32) OR push_bit 8 0x10 = push_bit 8 0xFF6010" by simp
  then have "push_bit 16 (0xFF60 :: u32) OR push_bit 8 0x10 OR st = push_bit 8 0xFF6010 OR st"
    by (simp only: or.assoc [symmetric])
  then show ?thesis by (simp only: low_byte_or)
qed

lemma m7: "(0x7F :: 'a::len word) = mask 7"
  by (simp add: mask_eq_exp_minus_1)

lemma low7_of_nat: "unat ((ucast (of_nat n :: u32) :: u8) AND mask 7) = n mod 128"
proof -
  have "unat ((ucast (of_nat n :: u32) :: u8) AND mask 7)
      = take_bit 7 (take_bit 8 (take_bit 32 n))"
    by (simp only: take_bit_eq_mask [symmetric] unsigned_take_bit_eq unsigned_ucast_eq
        unsigned_of_nat len_bit0 len_num1, simp)
  also have "\<dots> = take_bit 7 n"
    by simp
  also have "\<dots> = n mod 128"
    by (simp add: take_bit_eq_mod)
  finally show ?thesis .
qed

lemma statusWord_low7:
  "unat ((ucast (statusWord slop frame) :: u8) AND 0x7F) = length (slices frame) mod 128"
proof -
  have "(ucast (statusWord slop frame) :: u8) AND mask 7
      = ucast (of_nat (length (slices frame)) :: u32) AND mask 7"
    unfolding statusWord_def m7
    by (rule bit_word_eqI)
       (auto simp add: bit_ucast_iff bit_or_iff bit_and_iff bit_push_bit_iff bit_mask_iff)
  then show ?thesis by (simp add: m7 low7_of_nat)
qed

lemma statusWord_bit7:
  "bit (ucast (statusWord slop frame) :: u8) 7 \<longleftrightarrow> checkTimestampConsistency slop frame"
  unfolding statusWord_def m7
  by (auto simp add: bit_ucast_iff bit_or_iff bit_and_iff bit_push_bit_iff bit_mask_iff)

lemma streamStatusByte_eq:
  assumes "buildEVIO6Frame slop frame = (ok, B)" and "B \<noteq> []"
  shows "streamStatusByte B = ucast (statusWord slop frame)"
  unfolding streamStatusByte_def
  using output_word [OF assms, of 15]
  by (simp add: eventWordsOf_nth metadataWords_fixed status_low_byte del: push_bit_numeral)

lemma count_frameDropped: "length (slices frameDropped) = 2"
  by (simp add: frameDropped_def)

lemma no_slop_frameDropped: "\<not> checkTimestampConsistency 100 frameDropped"
  by (simp add: checkTimestampConsistency_def frameDropped_def sliceA_def sliceShort_def
      TimeSlice_ctor_def ts_min_def ts_max_def)

lemma streamStatusByte_frameDropped:
  "streamStatusByte (snd (buildEVIO6Frame 100 frameDropped)) = 2"
  unfolding streamStatusByte_eq [OF pair_of_build emitted_frameDropped]
  by (simp add: statusWord_def count_frameDropped no_slop_frameDropped)

section \<open>The stream-status byte of a record (C1)\<close>

text \<open>
  Claim C1 says that the stream-status byte \<open>SS\<close> of every record the encoder produces is
  \<open>(errFlag << 7) | (k & 0x7F)\<close>, where \<open>errFlag\<close> is 1 exactly when the slice-level
  validation or the timestamp-slop check flagged an error and \<open>k\<close> counts the slices that
  survived validation. The encoder computes the byte before its validation loop, from the
  number of all slices of the frame and from the slop check alone. For a frame of one valid
  slice and one slice that is too small (same timestamp, so no slop error) it produces a record
  with \<open>SS = 0x02\<close>, where the claim gives \<open>0x81\<close>.
\<close>

theorem C1_dropped_slice_counterexample:
  "snd (buildEVIO6Frame 100 frameDropped) \<noteq> []
   \<and> \<not> validSlice sliceShort
   \<and> length (retainedBanks frameDropped) = 1
   \<and> streamStatusByte (snd (buildEVIO6Frame 100 frameDropped)) = 0x02
   \<and> streamStatusByte (snd (buildEVIO6Frame 100 frameDropped)) \<noteq> (push_bit 7 1 OR (1 AND 0x7F))"
  using emitted_frameDropped [of 100] not_validSlice_short [of "0x10" 7 "0x2B"]
  by (simp add: streamStatusByte_frameDropped retainedBanks_frameDropped sliceShort_def)

text \<open>
  Claim C1 as amended: for every record the encoder produces, the low 7 bits of \<open>SS\<close> are
  \<open>n & 0x7F\<close> where \<open>n\<close> is the number of slices of the frame (dropped ones included);
  the top bit is 1 whenever the timestamp-slop check flagged, and 0 whenever the encoder
  returns success (no check flagged).
\<close>

theorem C1_status_byte:
  assumes "buildEVIO6Frame slop frame = (ok, B)" and "B \<noteq> []"
  shows "unat (streamStatusByte B AND 0x7F) = length (slices frame) mod 128
       \<and> (checkTimestampConsistency slop frame \<longrightarrow> bit (streamStatusByte B) 7)
       \<and> (ok \<longrightarrow> \<not> bit (streamStatusByte B) 7)"
proof -
  have r: "retainedBanks frame \<noteq> []" using assms emitted_iff [of slop frame] by simp
  have "ok = (\<not> (checkTimestampConsistency slop frame \<or> (\<exists>s\<in>set (slices frame). \<not> validSlice s)))"
    using assms(1) r by (simp add: buildEVIO6Frame_eq)
  then have "ok \<longrightarrow> \<not> checkTimestampConsistency slop frame" by simp
  then show ?thesis
    unfolding streamStatusByte_eq [OF assms]
    by (simp add: statusWord_low7 statusWord_bit7)
qed

theorem C1_status_byte_witness:
  "(snd (buildEVIO6Frame 10 frameMixed) \<noteq> []
    \<and> checkTimestampConsistency 10 frameMixed
    \<and> unat (streamStatusByte (snd (buildEVIO6Frame 10 frameMixed)) AND 0x7F) = 2
    \<and> bit (streamStatusByte (snd (buildEVIO6Frame 10 frameMixed))) 7)
   \<and> (fst (buildEVIO6Frame 100 frameOne) \<and> snd (buildEVIO6Frame 100 frameOne) \<noteq> []
    \<and> \<not> bit (streamStatusByte (snd (buildEVIO6Frame 100 frameOne))) 7)"
proof -
  have c: "checkTimestampConsistency 10 frameMixed"
    by (simp add: checkTimestampConsistency_def frameMixed_def TimeSlice_ctor_def
        ts_min_def ts_max_def)
  have n: "length (slices frameMixed) = 2" by (simp add: frameMixed_def)
  have mixed: "snd (buildEVIO6Frame 10 frameMixed) \<noteq> []
    \<and> checkTimestampConsistency 10 frameMixed
    \<and> unat (streamStatusByte (snd (buildEVIO6Frame 10 frameMixed)) AND 0x7F) = 2
    \<and> bit (streamStatusByte (snd (buildEVIO6Frame 10 frameMixed))) 7"
    using C1_status_byte [OF pair_of_build emitted_frameMixed, of 10] c n
      emitted_frameMixed [of 10]
    by simp
  have c': "\<not> checkTimestampConsistency 100 frameOne"
    by (simp add: checkTimestampConsistency_def frameOne_def sliceA_def TimeSlice_ctor_def
        ts_min_def ts_max_def)
  have ok: "fst (buildEVIO6Frame 100 frameOne)"
    using c' by (simp add: buildEVIO6Frame_eq retainedBanks_frameOne)
       (simp add: frameOne_def sliceA_def validSlice_example)
  have one: "fst (buildEVIO6Frame 100 frameOne) \<and> snd (buildEVIO6Frame 100 frameOne) \<noteq> []
    \<and> \<not> bit (streamStatusByte (snd (buildEVIO6Frame 100 frameOne))) 7"
    using C1_status_byte [OF pair_of_build emitted_frameOne, of 100] ok emitted_frameOne [of 100]
    by simp
  show ?thesis using mixed one by blast
qed

section \<open>The aggregation-info segment\<close>

lemma m16: "(0xFFFF :: u32) = mask 16"
  by (simp add: mask_eq_exp_minus_1)

lemma low16_or: "(push_bit 16 (h :: u32) OR c) AND mask 16 = take_bit 16 c"
  by (rule bit_word_eqI)
     (auto simp add: bit_or_iff bit_and_iff bit_push_bit_iff bit_mask_iff bit_take_bit_iff)

lemma ais_header_low16:
  "(push_bit 24 (0x42 :: u32) OR push_bit 16 0x01 OR c) AND mask 16 = take_bit 16 c"
proof -
  have "push_bit 24 (0x42 :: u32) OR push_bit 16 0x01 = push_bit 16 0x4201" by simp
  then have e: "push_bit 24 (0x42 :: u32) OR push_bit 16 0x01 OR c = push_bit 16 0x4201 OR c"
    by (simp only: or.assoc [symmetric])
  show ?thesis unfolding e by (rule low16_or)
qed

lemma aisLength_eq:
  assumes "buildEVIO6Frame slop frame = (ok, B)" and "B \<noteq> []"
  shows "aisLength B = length (slices frame) mod 65536"
proof -
  have w: "read_be_u32 B 22 =
      push_bit 24 0x42 OR push_bit 16 0x01 OR of_nat (length (slices frame))"
    using output_word [OF assms, of 22]
    by (simp add: eventWordsOf_nth metadataWords_fixed del: push_bit_numeral)
  have "aisLength B = unat (take_bit 16 (of_nat (length (slices frame)) :: u32))"
    unfolding aisLength_def w m16 ais_header_low16 ..
  also have "\<dots> = take_bit 16 (take_bit 32 (length (slices frame)))"
    by (simp only: unsigned_take_bit_eq unsigned_of_nat len_bit0 len_num1, simp)
  also have "\<dots> = take_bit 16 (length (slices frame))" by simp
  also have "\<dots> = length (slices frame) mod 65536" by (simp add: take_bit_eq_mod)
  finally show ?thesis .
qed

lemma aisEntryAt_eq:
  assumes "buildEVIO6Frame slop frame = (ok, B)" and "B \<noteq> []"
    and "i < length (slices frame)"
  shows "aisEntryAt B i = aisEntry (slices frame ! i)"
proof -
  have "23 + i < 23 + length (slices frame)" using assms(3) by simp
  then have "read_be_u32 B (23 + i) = eventWordsOf slop frame ! (23 + i)"
    using output_word [OF assms(1,2)] by blast
  also have "\<dots> = aisEntry (slices frame ! i)"
    using assms(3) by (simp add: eventWordsOf_nth metadataWords_ais)
  finally show ?thesis by (simp add: aisEntryAt_def)
qed

section \<open>Slice count and aggregation-info entries (C3)\<close>

text \<open>
  Claim C3 says that in every record the low 7 bits of \<open>SS\<close>, the length field of the
  aggregation-info segment and the number of its entries all equal \<open>k\<close>, the number of
  slices that survived slice-level validation, with one entry per retained slice. The encoder
  counts and lists all slices of the frame, also those whose ROC bank it dropped: for a frame of
  one valid slice and one slice that is too small, one bank is retained but the length field
  and the low bits of \<open>SS\<close> are 2.
\<close>

theorem C3_dropped_slice_counterexample:
  "snd (buildEVIO6Frame 100 frameDropped) \<noteq> []
   \<and> length (retainedBanks frameDropped) = 1
   \<and> aisLength (snd (buildEVIO6Frame 100 frameDropped)) = 2
   \<and> unat (streamStatusByte (snd (buildEVIO6Frame 100 frameDropped)) AND 0x7F) = 2"
  using emitted_frameDropped [of 100]
    aisLength_eq [OF pair_of_build emitted_frameDropped, of 100]
  by (simp add: streamStatusByte_frameDropped retainedBanks_frameDropped count_frameDropped)

text \<open>
  Claim C3 as amended: let \<open>n\<close> be the number of slices of the frame, retained by validation
  or not. In every record the encoder produces, the low 7 bits of \<open>SS\<close> are \<open>n mod 128\<close>,
  the header of the aggregation-info segment is \<open>(0x42 << 24) | (0x01 << 16) | n\<close>, so that
  its 16-bit length field is \<open>n mod 65536\<close>, and the segment has one entry
  \<open>(dataId << 16) | streamStatus\<close> per slice of the frame, in the order of the frame; the
  ROC bank bytes follow the last entry.
\<close>

theorem C3_aggregation_info:
  assumes "buildEVIO6Frame slop frame = (ok, B)" and "B \<noteq> []"
  shows "unat (streamStatusByte B AND 0x7F) = length (slices frame) mod 128
       \<and> read_be_u32 B 22 = push_bit 24 0x42 OR push_bit 16 0x01 OR of_nat (length (slices frame))
       \<and> aisLength B = length (slices frame) mod 65536
       \<and> (\<forall>i < length (slices frame).
            aisEntryAt B i = push_bit 16 (ucast (dataId (slices frame ! i)))
                             OR ucast (streamStatus (slices frame ! i)))
       \<and> drop (4 * (23 + length (slices frame))) B = paddedBanks (retainedBanks frame)"
proof -
  have a: "unat (streamStatusByte B AND 0x7F) = length (slices frame) mod 128"
    unfolding streamStatusByte_eq [OF assms] by (rule statusWord_low7)
  have b: "read_be_u32 B 22 =
      push_bit 24 0x42 OR push_bit 16 0x01 OR of_nat (length (slices frame))"
    using output_word [OF assms, of 22]
    by (simp add: eventWordsOf_nth metadataWords_fixed del: push_bit_numeral)
  have c: "\<forall>i < length (slices frame).
            aisEntryAt B i = push_bit 16 (ucast (dataId (slices frame ! i)))
                             OR ucast (streamStatus (slices frame ! i))"
    using aisEntryAt_eq [OF assms] by (simp add: aisEntry_def)
  show ?thesis
    using a b c aisLength_eq [OF assms] output_payload [OF assms] by blast
qed

theorem C3_aggregation_info_witness:
  "snd (buildEVIO6Frame 100 frameDropped) \<noteq> []
   \<and> unat (streamStatusByte (snd (buildEVIO6Frame 100 frameDropped)) AND 0x7F) = 2
   \<and> aisLength (snd (buildEVIO6Frame 100 frameDropped)) = 2
   \<and> aisEntryAt (snd (buildEVIO6Frame 100 frameDropped)) 0 = 0x002A0000
   \<and> aisEntryAt (snd (buildEVIO6Frame 100 frameDropped)) 1 = 0x002B0000"
proof -
  note c3 = C3_aggregation_info [OF pair_of_build emitted_frameDropped, of 100]
  have a: "unat (streamStatusByte (snd (buildEVIO6Frame 100 frameDropped)) AND 0x7F) = 2"
    using c3 by (simp add: count_frameDropped)
  have b: "aisLength (snd (buildEVIO6Frame 100 frameDropped)) = 2"
    using c3 by (simp add: count_frameDropped)
  have all: "\<forall>i < length (slices frameDropped).
      aisEntryAt (snd (buildEVIO6Frame 100 frameDropped)) i
        = push_bit 16 (ucast (dataId (slices frameDropped ! i)))
          OR ucast (streamStatus (slices frameDropped ! i))"
    using c3 by blast
  have e0: "aisEntryAt (snd (buildEVIO6Frame 100 frameDropped)) 0 = 0x002A0000"
    using all [rule_format, of 0]
    by (simp add: frameDropped_def sliceA_def TimeSlice_ctor_def)
  have e1: "aisEntryAt (snd (buildEVIO6Frame 100 frameDropped)) 1 = 0x002B0000"
    using all [rule_format, of 1]
    by (simp add: frameDropped_def sliceShort_def TimeSlice_ctor_def)
  show ?thesis using a b e0 e1 emitted_frameDropped [of 100] by blast
qed

section \<open>The timestamp of the time-slice segment\<close>







section \<open>Inserting a slice into the frame buffer\<close>

lemma addTimeSlice_lookup:
  "frameBuffer (BuilderThread_addTimeSlice now sl bt) (TimeSlice.timestamp sl) =
     Some (addSlice sl
       (let frame0 = (case frameBuffer bt (TimeSlice.timestamp sl) of
                        None \<Rightarrow> AggregatedFrame_ctor now | Some f \<Rightarrow> f)
        in if AggregatedFrame.timestamp frame0 = 0
           then frame0\<lparr>AggregatedFrame.timestamp := TimeSlice.timestamp sl,
                       AggregatedFrame.frameNumber := TimeSlice.frameNumber sl,
                       arrivalTime := now\<rparr>
           else frame0))"
  by (simp add: BuilderThread_addTimeSlice_def Let_def)

lemma addTimeSlice_first_insert:
  assumes "frameBuffer bt (TimeSlice.timestamp sl) = None"
  shows "frameBuffer (BuilderThread_addTimeSlice now sl bt) (TimeSlice.timestamp sl) =
     Some \<lparr>AggregatedFrame.timestamp = TimeSlice.timestamp sl,
           AggregatedFrame.frameNumber = TimeSlice.frameNumber sl,
           slices = [sl], arrivalTime = now\<rparr>"
  using assms by (simp add: addTimeSlice_lookup AggregatedFrame_ctor_def addSlice_def)

lemma addTimeSlice_later_insert:
  assumes "frameBuffer bt (TimeSlice.timestamp sl) = Some frame"
    and "AggregatedFrame.timestamp frame \<noteq> 0"
  shows "frameBuffer (BuilderThread_addTimeSlice now sl bt) (TimeSlice.timestamp sl) =
     Some (frame\<lparr>slices := slices frame @ [sl]\<rparr>)"
  using assms by (simp add: addTimeSlice_lookup addSlice_def)

lemma addTimeSlice_zero_insert:
  assumes "frameBuffer bt (TimeSlice.timestamp sl) = Some frame"
    and "AggregatedFrame.timestamp frame = 0"
  shows "frameBuffer (BuilderThread_addTimeSlice now sl bt) (TimeSlice.timestamp sl) =
     Some (frame\<lparr>AggregatedFrame.timestamp := TimeSlice.timestamp sl,
                 AggregatedFrame.frameNumber := TimeSlice.frameNumber sl,
                 arrivalTime := now, slices := slices frame @ [sl]\<rparr>)"
  using assms by (simp add: addTimeSlice_lookup addSlice_def)

lemma frameBuffer_exampleThread: "frameBuffer exampleThread k = None"
  by (simp add: exampleThread_def BuilderThread_ctor_def)

section \<open>Frame number and arrival time of a buffered frame (C7)\<close>

text \<open>
  Claim C7. The frame number and the arrival time of a buffered frame are set once, when the
  entry is created with its first slice, and later inserts of slices with the same timestamp
  do not change them, for every timestamp including 0. \<^verbatim>\<open>addTimeSlice\<close> recognises a new
  entry by \<^verbatim>\<open>frame.timestamp == 0\<close>. For a non-zero timestamp this holds exactly at the first
  insert (lemmas \<open>addTimeSlice_first_insert\<close> and \<open>addTimeSlice_later_insert\<close>). For
  timestamp 0 it holds at every insert: the branch commented "New frame" runs again, and a
  second slice with frame number 9 arriving at clock reading 250 replaces the frame number 7
  and the arrival time 100 that the first slice had set.
\<close>

theorem C7_timestamp_zero_reseeded:
  "frameBuffer (BuilderThread_addTimeSlice 100 zeroSliceFirst exampleThread) 0 =
     Some \<lparr>AggregatedFrame.timestamp = 0, AggregatedFrame.frameNumber = 7,
           slices = [zeroSliceFirst], arrivalTime = 100\<rparr>
   \<and> frameBuffer (BuilderThread_addTimeSlice 250 zeroSliceSecond
         (BuilderThread_addTimeSlice 100 zeroSliceFirst exampleThread)) 0 =
     Some \<lparr>AggregatedFrame.timestamp = 0, AggregatedFrame.frameNumber = 9,
           slices = [zeroSliceFirst, zeroSliceSecond], arrivalTime = 250\<rparr>"
proof -
  have t1: "TimeSlice.timestamp zeroSliceFirst = 0" "TimeSlice.frameNumber zeroSliceFirst = 7"
    by (simp_all add: zeroSliceFirst_def TimeSlice_ctor_def)
  have t2: "TimeSlice.timestamp zeroSliceSecond = 0" "TimeSlice.frameNumber zeroSliceSecond = 9"
    by (simp_all add: zeroSliceSecond_def TimeSlice_ctor_def)
  have a: "frameBuffer (BuilderThread_addTimeSlice 100 zeroSliceFirst exampleThread) 0 =
     Some \<lparr>AggregatedFrame.timestamp = 0, AggregatedFrame.frameNumber = 7,
           slices = [zeroSliceFirst], arrivalTime = 100\<rparr>"
    using addTimeSlice_first_insert [of exampleThread zeroSliceFirst 100]
    by (simp add: t1 frameBuffer_exampleThread)
  have b: "frameBuffer (BuilderThread_addTimeSlice 250 zeroSliceSecond
         (BuilderThread_addTimeSlice 100 zeroSliceFirst exampleThread)) 0 =
     Some \<lparr>AggregatedFrame.timestamp = 0, AggregatedFrame.frameNumber = 9,
           slices = [zeroSliceFirst, zeroSliceSecond], arrivalTime = 250\<rparr>"
    using addTimeSlice_zero_insert [of "BuilderThread_addTimeSlice 100 zeroSliceFirst exampleThread"
        zeroSliceSecond _ 250] a
    by (simp add: t2)
  show ?thesis using a b by blast
qed

section \<open>What makes construction fail (C8)\<close>

text \<open>
  Claim C8 says that constructing the \<^verbatim>\<open>FrameBuilder\<close> fails if and only if no output is
  enabled or the thread count lies outside \<open>[1, 32]\<close>. The constructor does not look at the
  thread count: with an ET file name it succeeds for a count of 0 and for a count of 33.
\<close>

theorem C8_thread_count_counterexample:
  "\<not> isl (FrameBuilder_ctor ''/tmp/et_sys'' [] 0 [] ''frames'' 0 1048576 100 1000 1)
   \<and> \<not> isl (FrameBuilder_ctor ''/tmp/et_sys'' [] 0 [] ''frames'' 33 1048576 100 1000 1)"
  by (simp add: FrameBuilder_ctor_def Let_def)

text \<open>
  Claim C8 as amended: constructing the \<^verbatim>\<open>FrameBuilder\<close> fails, with
  \<^verbatim>\<open>invalid_argument("No output enabled")\<close>, if and only if neither the ET output nor the
  file output is enabled; the constructor does not check the thread count, which it stores
  as given.
\<close>

theorem C8_construction:
  "(FrameBuilder_ctor etFile etHost port fileDir filePrefix numBuilderThreads eventSize tsSlop
       timeout numExpectedStreams = Inl (invalid_argument ''No output enabled'')
     \<longleftrightarrow> etFile = [] \<and> fileDir = [])
   \<and> (isl (FrameBuilder_ctor etFile etHost port fileDir filePrefix numBuilderThreads eventSize
          tsSlop timeout numExpectedStreams)
     \<longleftrightarrow> etFile = [] \<and> fileDir = [])
   \<and> (\<not> isl (FrameBuilder_ctor etFile etHost port fileDir filePrefix numBuilderThreads
            eventSize tsSlop timeout numExpectedStreams)
     \<longrightarrow> builderThreadCount (projr (FrameBuilder_ctor etFile etHost port fileDir filePrefix
            numBuilderThreads eventSize tsSlop timeout numExpectedStreams)) = numBuilderThreads)"
  by (auto simp add: FrameBuilder_ctor_def Let_def)

theorem C8_construction_witness:
  "isl (FrameBuilder_ctor [] [] 0 [] ''frames'' 4 1048576 100 1000 1)
   \<and> \<not> isl (FrameBuilder_ctor [] [] 0 ''/data'' ''frames'' 40 1048576 100 1000 1)
   \<and> builderThreadCount (projr (FrameBuilder_ctor [] [] 0 ''/data'' ''frames'' 40 1048576 100
        1000 1)) = 40"
proof -
  have a: "isl (FrameBuilder_ctor [] [] 0 [] ''frames'' 4 1048576 100 1000 1)"
    using C8_construction [of "[]" "[]" 0 "[]" "''frames''" 4 1048576 100 1000 1] by simp
  have b: "\<not> isl (FrameBuilder_ctor [] [] 0 ''/data'' ''frames'' 40 1048576 100 1000 1)"
    using C8_construction [of "[]" "[]" 0 "''/data''" "''frames''" 40 1048576 100 1000 1] by simp
  have c: "builderThreadCount (projr (FrameBuilder_ctor [] [] 0 ''/data'' ''frames'' 40 1048576
      100 1000 1)) = 40"
    using C8_construction [of "[]" "[]" 0 "''/data''" "''frames''" 40 1048576 100 1000 1] b
    by blast
  show ?thesis using a b c by blast
qed

section \<open>The worker and a record built with errors\<close>

lemma processEntry_not_built:
  assumes "frameBuffer bt key = Some frame" and "shouldBuild bt now frame"
    and "\<not> fst (buildEVIO6Frame (BuilderThread.timestampSlop bt) frame)"
  shows "etEvents (processEntry env now key bt) = etEvents bt"
    and "files (processEntry env now key bt) = files bt"
    and "frameBuffer (processEntry env now key bt) key = None"
  using assms by (simp_all add: processEntry_def Let_def)

lemma build_with_errors:
  assumes "retainedBanks frame \<noteq> []"
    and "checkTimestampConsistency slop frame \<or> (\<exists>s\<in>set (slices frame). \<not> validSlice s)"
  shows "\<not> fst (buildEVIO6Frame slop frame)" and "snd (buildEVIO6Frame slop frame) \<noteq> []"
  using assms by (simp_all add: emitted_iff) (simp add: buildEVIO6Frame_eq)

lemma frameBuffer_droppedThread: "frameBuffer droppedThread 0x10 = Some frameDropped"
proof -
  have t: "TimeSlice.timestamp sliceA = 0x10" "TimeSlice.timestamp sliceShort = 0x10"
     "TimeSlice.frameNumber sliceA = 7"
    by (simp_all add: sliceA_def sliceShort_def TimeSlice_ctor_def)
  have a: "frameBuffer (BuilderThread_addTimeSlice 0 sliceA exampleThread) 0x10 =
     Some \<lparr>AggregatedFrame.timestamp = 0x10, AggregatedFrame.frameNumber = 7,
           slices = [sliceA], arrivalTime = 0\<rparr>"
    using addTimeSlice_first_insert [of exampleThread sliceA 0]
    by (simp add: t frameBuffer_exampleThread)
  show ?thesis
    unfolding droppedThread_def
    using addTimeSlice_later_insert [of "BuilderThread_addTimeSlice 0 sliceA exampleThread"
        sliceShort _ 1] a
    by (simp add: t frameDropped_def)
qed

lemma config_droppedThread:
  "useET droppedThread" "useFileOutput droppedThread"
  "BuilderThread.timestampSlop droppedThread = 100"
  "expectedStreamCount droppedThread = 2"
  "etEvents droppedThread = []" "files droppedThread = []"
  by (simp_all add: droppedThread_def BuilderThread_addTimeSlice_def Let_def exampleThread_def
      BuilderThread_ctor_def)

lemma shouldBuild_droppedThread: "shouldBuild droppedThread 5 frameDropped"
  by (simp add: shouldBuild_def config_droppedThread count_frameDropped)
     (simp add: frameDropped_def)

lemma invalid_in_frameDropped: "\<exists>s\<in>set (slices frameDropped). \<not> validSlice s"
  using not_validSlice_short [of "0x10" 7 "0x2B"]
  by (simp add: frameDropped_def sliceShort_def)

section \<open>Records built with errors (C2)\<close>

text \<open>
  Claim C2 says that when the encoder raises only a non-fatal error (a timestamp spread above
  the slop, or slices dropped while at least one survives) it returns a built-with-errors
  result with a valid buffer, and the worker still emits that record to the enabled sinks.
  The encoder does fill the buffer, but it returns \<^verbatim>\<open>false\<close>, and the worker sends a
  record to the sinks only inside \<^verbatim>\<open>if (buildEVIO6Frame(frameCopy, builtFrame))\<close>. With
  both sinks enabled and working, a ready frame of one valid and one too small slice is taken
  out of the buffer and encoded, and nothing reaches the ET system or a file.
\<close>

theorem C2_dropped_record_counterexample:
  "useET droppedThread \<and> useFileOutput droppedThread
   \<and> frameBuffer droppedThread 0x10 = Some frameDropped
   \<and> shouldBuild droppedThread 5 frameDropped
   \<and> length (retainedBanks frameDropped) = 1
   \<and> snd (buildEVIO6Frame 100 frameDropped) \<noteq> []
   \<and> etEvents (processEntry exampleEnv 5 0x10 droppedThread) = []
   \<and> files (processEntry exampleEnv 5 0x10 droppedThread) = []"
proof -
  have nb: "\<not> fst (buildEVIO6Frame (BuilderThread.timestampSlop droppedThread) frameDropped)"
    using build_with_errors(1) [of frameDropped 100] invalid_in_frameDropped
    by (simp add: retainedBanks_frameDropped config_droppedThread)
  note pe = processEntry_not_built [OF frameBuffer_droppedThread shouldBuild_droppedThread nb,
      of exampleEnv]
  show ?thesis
    using pe frameBuffer_droppedThread shouldBuild_droppedThread emitted_frameDropped [of 100]
    by (simp add: config_droppedThread retainedBanks_frameDropped)
qed

text \<open>
  Claim C2 as amended: when the encoder raises only a non-fatal error, it fills the output
  buffer and returns \<^verbatim>\<open>false\<close>; the worker emits a record only when the encoder returns
  \<^verbatim>\<open>true\<close>, so it removes the frame from its buffer and sends the record to no sink.
\<close>

theorem C2_record_with_errors_not_emitted:
  assumes "frameBuffer bt key = Some frame" and "shouldBuild bt now frame"
    and "retainedBanks frame \<noteq> []"
    and "checkTimestampConsistency (BuilderThread.timestampSlop bt) frame
         \<or> (\<exists>s\<in>set (slices frame). \<not> validSlice s)"
  shows "\<not> fst (buildEVIO6Frame (BuilderThread.timestampSlop bt) frame)
       \<and> snd (buildEVIO6Frame (BuilderThread.timestampSlop bt) frame) \<noteq> []
       \<and> etEvents (processEntry env now key bt) = etEvents bt
       \<and> files (processEntry env now key bt) = files bt
       \<and> frameBuffer (processEntry env now key bt) key = None"
  using build_with_errors [OF assms(3,4)]
    processEntry_not_built [OF assms(1,2) build_with_errors(1) [OF assms(3,4)], of env]
  by simp

theorem C2_record_with_errors_not_emitted_witness:
  "frameBuffer droppedThread 0x10 = Some frameDropped
   \<and> shouldBuild droppedThread 5 frameDropped
   \<and> retainedBanks frameDropped \<noteq> []
   \<and> (\<exists>s\<in>set (slices frameDropped). \<not> validSlice s)
   \<and> \<not> fst (buildEVIO6Frame 100 frameDropped)
   \<and> etEvents (processEntry exampleEnv 5 0x10 droppedThread) = []
   \<and> frameBuffer (processEntry exampleEnv 5 0x10 droppedThread) 0x10 = None"
proof -
  have r: "retainedBanks frameDropped \<noteq> []" by (simp add: retainedBanks_frameDropped)
  have i: "checkTimestampConsistency (BuilderThread.timestampSlop droppedThread) frameDropped
         \<or> (\<exists>s\<in>set (slices frameDropped). \<not> validSlice s)"
    using invalid_in_frameDropped by blast
  show ?thesis
    using C2_record_with_errors_not_emitted [OF frameBuffer_droppedThread
        shouldBuild_droppedThread r i, of exampleEnv]
      frameBuffer_droppedThread shouldBuild_droppedThread r invalid_in_frameDropped
    by (simp add: config_droppedThread)
qed

section \<open>The stream status of buffered slices is zero\<close>

lemma aisEntry_statusZero:
  assumes "streamStatus sl = 0"
  shows "aisEntry sl = push_bit 16 (ucast (dataId sl))"
  using assms by (simp add: aisEntry_def)

lemma push16_low_zero: "push_bit 16 (w :: u32) AND mask 16 = 0"
  by (rule bit_word_eqI) (auto simp add: bit_and_iff bit_push_bit_iff bit_mask_iff)

lemma built_aisLowBitsZero:
  assumes "statusZero frame" and "buildEVIO6Frame slop frame = (ok, B)" and "B \<noteq> []"
  shows "aisLowBitsZero B"
proof -
  have "aisEntryAt B i AND 0xFFFF = 0" if "i < aisLength B" for i
  proof -
    have "i < length (slices frame) mod 65536" using that aisLength_eq [OF assms(2,3)] by simp
    also have "\<dots> \<le> length (slices frame)" by simp
    finally have i: "i < length (slices frame)" .
    then have "streamStatus (slices frame ! i) = 0"
      using assms(1) by (simp add: statusZero_def list_all_length)
    then have "aisEntryAt B i = push_bit 16 (ucast (dataId (slices frame ! i)))"
      using aisEntryAt_eq [OF assms(2,3) i] by (simp add: aisEntry_statusZero)
    then show ?thesis by (simp only: m16 push16_low_zero)
  qed
  then show ?thesis by (simp add: aisLowBitsZero_def list_all_iff)
qed

lemma threadInv_ctor: "threadInv (BuilderThread_ctor i c s t e a b n)"
  by (simp add: threadInv_def BuilderThread_ctor_def)

lemma statusZero_ctor: "statusZero (AggregatedFrame_ctor now)"
  by (simp add: statusZero_def AggregatedFrame_ctor_def)

lemma threadInv_addTimeSlice:
  assumes "threadInv bt" and "streamStatus sl = 0"
  shows "threadInv (BuilderThread_addTimeSlice now sl bt)"
proof -
  let ?frame0 = "case frameBuffer bt (TimeSlice.timestamp sl) of
                   None \<Rightarrow> AggregatedFrame_ctor now | Some f \<Rightarrow> f"
  have z0: "statusZero ?frame0"
    using assms(1) by (auto simp add: threadInv_def statusZero_ctor ran_def split: option.splits)
  have old: "\<forall>frame \<in> ran (frameBuffer bt). statusZero frame"
    using assms(1) by (simp add: threadInv_def)
  have new: "statusZero f"
    if h: "f \<in> ran (frameBuffer (BuilderThread_addTimeSlice now sl bt))" for f
  proof -
    obtain k where k: "frameBuffer (BuilderThread_addTimeSlice now sl bt) k = Some f"
      using h by (auto simp add: ran_def)
    show ?thesis
    proof (cases "k = TimeSlice.timestamp sl")
      case True
      then show ?thesis
        using k z0 assms(2)
        by (auto simp add: addTimeSlice_lookup Let_def addSlice_def statusZero_def
            split: if_splits)
    next
      case False
      then have "frameBuffer bt k = Some f"
        using k by (simp add: BuilderThread_addTimeSlice_def Let_def)
      then show ?thesis using old by (auto simp add: ran_def)
    qed
  qed
  show ?thesis
    using assms(1) new
    by (simp add: threadInv_def) (simp add: BuilderThread_addTimeSlice_def Let_def)
qed

lemma threadInv_sendToET:
  assumes "threadInv bt" and "aisLowBitsZero B"
  shows "threadInv (snd (sendToET env B bt))"
  using assms by (auto simp add: threadInv_def sendToET_def)

lemma appendBlock_blocks:
  assumes "file \<in> set (appendBlock b fs)" and "B \<in> set file"
  shows "B = b \<or> (\<exists>file' \<in> set fs. B \<in> set file')"
proof (cases "fs = []")
  case True
  then show ?thesis using assms by (simp add: appendBlock_def)
next
  case False
  then have "file \<in> set (butlast fs) \<or> file = last fs @ [b]"
    using assms(1) by (auto simp add: appendBlock_def)
  then show ?thesis
  proof
    assume "file \<in> set (butlast fs)"
    then have "file \<in> set fs" by (rule in_set_butlastD)
    then show ?thesis using assms(2) by blast
  next
    assume "file = last fs @ [b]"
    then have "B = b \<or> B \<in> set (last fs)" using assms(2) by auto
    then show ?thesis using False last_in_set by blast
  qed
qed

lemma threadInv_writeFileHeader:
  assumes "threadInv bt"
  shows "threadInv (snd (writeFileHeader env bt))"
  using assms
  by (auto simp add: threadInv_def writeFileHeader_def dest!: appendBlock_blocks)

lemma threadInv_openNextFile:
  assumes "threadInv bt"
  shows "threadInv (snd (openNextFile env bt))"
proof (cases "file_open_ok env")
  case False
  then show ?thesis using assms by (simp add: openNextFile_def threadInv_def)
next
  case True
  let ?bt1 = "bt\<lparr>outputFileOpen := True, files := files bt @ [[]], currentFileSize := 0,
                  filesCreated := filesCreated bt + 1\<rparr>"
  have "threadInv ?bt1" using assms by (auto simp add: threadInv_def)
  then have h: "threadInv (snd (writeFileHeader env ?bt1))" by (rule threadInv_writeFileHeader)
  obtain ok bt2 where w: "writeFileHeader env ?bt1 = (ok, bt2)" by (cases "writeFileHeader env ?bt1")
  have i2: "threadInv bt2" using h w by simp
  then have "threadInv (bt2\<lparr>outputFileOpen := False\<rparr>)" by (simp add: threadInv_def)
  then show ?thesis
    using True i2 w by (simp add: openNextFile_def Let_def)
qed

lemma threadInv_writeToFile:
  assumes "threadInv bt" and "aisLowBitsZero B"
  shows "threadInv (snd (writeToFile env B bt))"
proof -
  obtain opened bt1 where
    o: "(if \<not> outputFileOpen bt then openNextFile env bt else (True, bt)) = (opened, bt1)"
    by (cases "if \<not> outputFileOpen bt then openNextFile env bt else (True, bt)")
  have "threadInv (snd (if \<not> outputFileOpen bt then openNextFile env bt else (True, bt)))"
    using assms(1) threadInv_openNextFile by simp
  then have i1: "threadInv bt1" using o by simp
  let ?bt2 = "bt1\<lparr>files := appendBlock B (files bt1),
                    currentFileSize := currentFileSize bt1 + of_nat (length B),
                    bytesWritten := bytesWritten bt1 + of_nat (length B)\<rparr>"
  have e: "threadInv (bt1\<lparr>buildErrors := buildErrors bt1 + 1\<rparr>)"
    using i1 by (simp add: threadInv_def)
  have b2: "threadInv ?bt2"
    using i1 assms(2) by (auto simp add: threadInv_def dest!: appendBlock_blocks)
  then have "threadInv (?bt2\<lparr>currentFileNumber := currentFileNumber ?bt2 + 1\<rparr>)"
    by (simp add: threadInv_def)
  then have b3: "threadInv (snd (openNextFile env
      (?bt2\<lparr>currentFileNumber := currentFileNumber ?bt2 + 1\<rparr>)))"
    by (rule threadInv_openNextFile)
  show ?thesis
    unfolding writeToFile_def o Let_def
    using e b2 b3 by (simp split: if_splits)
qed

lemma threadInv_fields:
  assumes "threadInv bt"
    and "frameBuffer bt' = frameBuffer bt" and "etEvents bt' = etEvents bt"
    and "files bt' = files bt"
  shows "threadInv bt'"
  using assms by (simp add: threadInv_def)

lemma built_ok_nonempty:
  assumes "fst (buildEVIO6Frame slop frame)"
  shows "snd (buildEVIO6Frame slop frame) \<noteq> []"
proof -
  have "retainedBanks frame \<noteq> []"
    using assms by (auto simp add: buildEVIO6Frame_eq split: if_splits)
  then show ?thesis by (simp add: emitted_iff)
qed

lemma threadInv_processEntry:
  assumes "threadInv bt"
  shows "threadInv (processEntry env now key bt)"
proof (cases "frameBuffer bt key")
  case None
  then show ?thesis using assms by (simp add: processEntry_def)
next
  case (Some frame)
  show ?thesis
  proof (cases "shouldBuild bt now frame")
    case False
    then show ?thesis using assms Some by (simp add: processEntry_def)
  next
    case True
    let ?bt1 = "bt\<lparr>frameBuffer := (frameBuffer bt)(key := None)\<rparr>"
    let ?bt2 = "if checkTimestampConsistency (BuilderThread.timestampSlop ?bt1) frame
                then ?bt1\<lparr>timestampErrors := timestampErrors ?bt1 + 1\<rparr> else ?bt1"
    let ?built = "buildEVIO6Frame (BuilderThread.timestampSlop ?bt2) frame"
    have z: "statusZero frame"
      using assms Some by (auto simp add: threadInv_def ran_def)
    have "ran ((frameBuffer bt)(key := None)) \<subseteq> ran (frameBuffer bt)"
      by (auto simp add: ran_def split: if_splits)
    then have i1: "threadInv ?bt1" using assms by (auto simp add: threadInv_def)
    then have i2: "threadInv ?bt2" by (simp add: threadInv_def)
    show ?thesis
    proof (cases "fst ?built")
      case False
      then show ?thesis
        using Some True i2 by (simp add: processEntry_def Let_def)
    next
      case ok: True
      then have "snd ?built \<noteq> []" by (rule built_ok_nonempty)
      then have good: "aisLowBitsZero (snd ?built)"
        using built_aisLowBitsZero [OF z, of "BuilderThread.timestampSlop ?bt2" "fst ?built" "snd ?built"]
        by simp
      let ?sent = "if useET ?bt2 then sendToET env (snd ?built) ?bt2 else (True, ?bt2)"
      have i3: "threadInv (snd ?sent)"
        using i2 good threadInv_sendToET [of ?bt2 "snd ?built" env] by simp
      let ?written = "if useFileOutput (snd ?sent) then writeToFile env (snd ?built) (snd ?sent)
                      else (True, snd ?sent)"
      have i4: "threadInv (snd ?written)"
        using i3 good threadInv_writeToFile [of "snd ?sent" "snd ?built" env] by simp
      then have i5: "threadInv ((snd ?written)\<lparr>framesBuilt := framesBuilt (snd ?written) + 1\<rparr>)"
        by (simp add: threadInv_def)
      have "processEntry env now key bt =
          (if fst ?written \<and> fst ?sent
           then (snd ?written)\<lparr>framesBuilt := framesBuilt (snd ?written) + 1\<rparr>
           else snd ?written)"
        using Some True ok by (simp add: processEntry_def Let_def)
      then show ?thesis using i4 i5 by simp
    qed
  qed
qed

lemma fbInv_ctor:
  assumes "FrameBuilder_ctor etFile etHost port fileDir filePrefix n es slop timeout ns = Inr fb"
  shows "fbInv fb"
  using assms by (auto simp add: FrameBuilder_ctor_def Let_def fbInv_def split: if_splits)

lemma fbInv_start:
  assumes "fbInv fb"
  shows "fbInv (snd (FrameBuilder_start ioOk fb))"
  using assms
  by (auto simp add: FrameBuilder_start_def fbInv_def list_all_iff threadInv_ctor)

lemma streamStatus_ctor: "streamStatus (TimeSlice_ctor ts frame ident data) = 0"
  by (simp add: TimeSlice_ctor_def)

lemma list_all_update:
  assumes "list_all P xs" and "P x"
  shows "list_all P (xs[i := x])"
  using assms set_update_subset_insert [of xs i x] by (auto simp add: list_all_iff)

lemma fbInv_addTimeSlice:
  assumes "fbInv fb"
    and "FrameBuilder_addTimeSlice now ts frame ident data fb = Some fb'"
  shows "fbInv fb'"
proof -
  let ?idx = "nat (sint (ucast (ts mod of_int (builderThreadCount fb)) :: u32))"
  have r: "?idx < length (builderThreads fb)"
    and fb': "fb' = fb\<lparr>builderThreads :=
                (builderThreads fb)[?idx := BuilderThread_addTimeSlice now
                   (TimeSlice_ctor ts frame ident data) (builderThreads fb ! ?idx)],
              slicesAggregated := slicesAggregated fb + 1\<rparr>"
    using assms(2)
    by (auto simp add: FrameBuilder_addTimeSlice_def Let_def split: if_splits)
  have "threadInv (builderThreads fb ! ?idx)"
    using assms(1) r by (simp add: fbInv_def list_all_length)
  then have "threadInv (BuilderThread_addTimeSlice now (TimeSlice_ctor ts frame ident data)
      (builderThreads fb ! ?idx))"
    by (rule threadInv_addTimeSlice) (rule streamStatus_ctor)
  then show ?thesis
    using assms(1) unfolding fb' fbInv_def by (simp add: list_all_update)
qed

lemma fbInv_workerStep:
  assumes "fbInv fb"
  shows "fbInv (workerStep env now i key fb)"
proof (cases "i < length (builderThreads fb)")
  case False
  then show ?thesis using assms by (simp add: workerStep_def)
next
  case True
  then have "threadInv (builderThreads fb ! i)"
    using assms by (simp add: fbInv_def list_all_length)
  then have "threadInv (processEntry env now key (builderThreads fb ! i))"
    by (rule threadInv_processEntry)
  then show ?thesis
    using assms True by (simp add: workerStep_def fbInv_def list_all_update)
qed

lemma fbInv_run:
  assumes "fbInv fb" and "run evs fb = Some fb'"
  shows "fbInv fb'"
  using assms
proof (induction evs fb rule: run.induct)
  case (1 fb)
  then show ?case by simp
next
  case (2 now ts frame ident data evs fb)
  then show ?case
    by (auto simp add: fbInv_addTimeSlice split: option.splits)
next
  case (3 env now i key evs fb)
  then show ?case by (simp add: fbInv_workerStep)
qed

section \<open>What the worker sends to the ET system\<close>

lemma etEvents_writeFileHeader: "etEvents (snd (writeFileHeader env bt)) = etEvents bt"
  by (simp add: writeFileHeader_def)

lemma etEvents_openNextFile: "etEvents (snd (openNextFile env bt)) = etEvents bt"
proof (cases "file_open_ok env")
  case False
  then show ?thesis by (simp add: openNextFile_def)
next
  case True
  let ?bt1 = "bt\<lparr>outputFileOpen := True, files := files bt @ [[]], currentFileSize := 0,
                  filesCreated := filesCreated bt + 1\<rparr>"
  obtain ok bt2 where w: "writeFileHeader env ?bt1 = (ok, bt2)" by (cases "writeFileHeader env ?bt1")
  have "etEvents bt2 = etEvents bt" using etEvents_writeFileHeader [of env ?bt1] w by simp
  then show ?thesis using True w by (simp add: openNextFile_def Let_def)
qed

lemma etEvents_writeToFile: "etEvents (snd (writeToFile env B bt)) = etEvents bt"
proof -
  obtain opened bt1 where
    o: "(if \<not> outputFileOpen bt then openNextFile env bt else (True, bt)) = (opened, bt1)"
    by (cases "if \<not> outputFileOpen bt then openNextFile env bt else (True, bt)")
  have "etEvents (snd (if \<not> outputFileOpen bt then openNextFile env bt else (True, bt)))
      = etEvents bt"
    by (simp add: etEvents_openNextFile)
  then have e1: "etEvents bt1 = etEvents bt" using o by simp
  show ?thesis
    unfolding writeToFile_def o Let_def
    using e1 by (simp add: etEvents_openNextFile)
qed

lemma processEntry_emits_ET:
  assumes "frameBuffer bt key = Some frame" and "shouldBuild bt now frame"
    and "fst (buildEVIO6Frame (BuilderThread.timestampSlop bt) frame)"
    and "useET bt" and "et_events_new_ok env" and "et_events_put_ok env"
    and "length (snd (buildEVIO6Frame (BuilderThread.timestampSlop bt) frame)) \<le> et_event_length env"
  shows "etEvents (processEntry env now key bt) =
     etEvents bt @ [snd (buildEVIO6Frame (BuilderThread.timestampSlop bt) frame)]"
  using assms
  by (simp add: processEntry_def Let_def etEvents_writeToFile sendToET_def)

lemma ctor_exampleBuilder0:
  "FrameBuilder_ctor ''/tmp/et_sys'' [] 0 [] ''frames'' 1 1048576 100 1000 1 = Inr exampleBuilder0"
  by (simp add: exampleBuilder0_def FrameBuilder_ctor_def Let_def)

lemma start_exampleBuilder: "FrameBuilder_start True exampleBuilder0 = (True, exampleBuilder)"
  by (simp add: exampleBuilder_def FrameBuilder_start_def)

lemma threads_exampleBuilder:
  "builderThreads exampleBuilder = [BuilderThread_ctor 0 1 100 1000 1048576 True False 1]"
  "builderThreadCount exampleBuilder = 1"
  by (simp_all add: exampleBuilder_def FrameBuilder_start_def exampleBuilder0_def
      FrameBuilder_ctor_def Let_def)


lemma ok_frameOne: "fst (buildEVIO6Frame 100 frameOne)"
proof -
  have c: "\<not> checkTimestampConsistency 100 frameOne"
    by (simp add: checkTimestampConsistency_def frameOne_def sliceA_def TimeSlice_ctor_def
        ts_min_def ts_max_def)
  show ?thesis
    using c by (simp add: buildEVIO6Frame_eq retainedBanks_frameOne)
       (simp add: frameOne_def sliceA_def validSlice_example)
qed

lemma length_built_frameOne: "length (snd (buildEVIO6Frame 100 frameOne)) = 112"
  using output_length [OF pair_of_build emitted_frameOne, of 100]
  by (simp add: count_frameOne padded_frameOne)

lemma frameBuffer_exampleWorker: "frameBuffer exampleWorker 0x10 = Some frameOne"
proof -
  have t: "TimeSlice.timestamp sliceA = 0x10" "TimeSlice.frameNumber sliceA = 7"
    by (simp_all add: sliceA_def TimeSlice_ctor_def)
  show ?thesis
    unfolding exampleWorker_def
    using addTimeSlice_first_insert [of "BuilderThread_ctor 0 1 100 1000 1048576 True False 1"
        sliceA 0]
    by (simp add: t frameOne_def) (simp add: BuilderThread_ctor_def)
qed

lemma config_exampleWorker:
  "useET exampleWorker" "BuilderThread.timestampSlop exampleWorker = 100"
  "expectedStreamCount exampleWorker = 1" "etEvents exampleWorker = []"
  by (simp_all add: exampleWorker_def BuilderThread_addTimeSlice_def Let_def
      BuilderThread_ctor_def)

lemma shouldBuild_exampleWorker: "shouldBuild exampleWorker 5 frameOne"
  by (simp add: shouldBuild_def config_exampleWorker count_frameOne) (simp add: frameOne_def)

lemma etEvents_exampleWorker:
  "etEvents (processEntry exampleEnv 5 0x10 exampleWorker) = [snd (buildEVIO6Frame 100 frameOne)]"
  using processEntry_emits_ET [OF frameBuffer_exampleWorker shouldBuild_exampleWorker,
      of exampleEnv]
  by (simp add: config_exampleWorker ok_frameOne length_built_frameOne exampleEnv_def)

lemma run_exampleEvents:
  "run exampleEvents exampleBuilder =
     Some (exampleBuilder\<lparr>builderThreads := [processEntry exampleEnv 5 0x10 exampleWorker],
                           slicesAggregated := slicesAggregated exampleBuilder + 1\<rparr>)"
  by (simp add: exampleEvents_def FrameBuilder_addTimeSlice_def Let_def threads_exampleBuilder
      workerStep_def exampleWorker_def sliceA_def)

lemma final_exampleEvents:
  "run exampleEvents exampleBuilder = Some exampleFinal"
  "builderThreads exampleFinal = [processEntry exampleEnv 5 0x10 exampleWorker]"
  by (simp_all add: exampleFinal_def run_exampleEvents)

section \<open>The status field of the aggregation-info entries (C10)\<close>

text \<open>
  Claim C10. In every emitted record the low 16 bits (the stream status field) of every
  aggregation-info entry are zero, each entry being exactly \<open>dataId << 16\<close>, because the
  stream status of a \<^verbatim>\<open>TimeSlice\<close> is 0 at construction and is never assigned afterwards.
  Stated over the pipeline: take a frame builder as the constructor and \<^verbatim>\<open>start\<close> make it,
  and any run of submissions and worker steps. Then in every thread, every slice of every
  buffered frame has stream status 0; the record the encoder builds from a buffered frame has
  the entry \<open>dataId << 16\<close> for each of its slices; and every record that reached the ET
  system or a file (every block of a file other than the file header) has aggregation-info
  entries whose low 16 bits are zero.
\<close>

theorem C10_ais_status_bits_zero:
  assumes "FrameBuilder_ctor etFile etHost port fileDir filePrefix numBuilderThreads eventSize
             tsSlop timeout numExpectedStreams = Inr fb0"
    and "FrameBuilder_start True fb0 = (True, fb1)"
    and "run evs fb1 = Some fb"
    and "bt \<in> set (builderThreads fb)"
  shows "(\<forall>frame \<in> ran (frameBuffer bt). statusZero frame)
       \<and> (\<forall>frame \<in> ran (frameBuffer bt). \<forall>i < length (slices frame).
             snd (buildEVIO6Frame slop frame) \<noteq> [] \<longrightarrow>
             aisEntryAt (snd (buildEVIO6Frame slop frame)) i =
               push_bit 16 (ucast (dataId (slices frame ! i))))
       \<and> (\<forall>B \<in> set (etEvents bt). aisLowBitsZero B)
       \<and> (\<forall>file \<in> set (files bt). \<forall>B \<in> set file.
             B = swapAndStore fileHeader \<or> aisLowBitsZero B)"
proof -
  have "fbInv fb0" using assms(1) by (rule fbInv_ctor)
  then have "fbInv (snd (FrameBuilder_start True fb0))" by (rule fbInv_start)
  then have "fbInv fb1" using assms(2) by simp
  then have "fbInv fb" using assms(3) by (rule fbInv_run)
  then have inv: "threadInv bt" using assms(4) by (simp add: fbInv_def list_all_iff)
  have z: "\<forall>frame \<in> ran (frameBuffer bt). statusZero frame"
    using inv by (simp add: threadInv_def)
  have e: "aisEntryAt (snd (buildEVIO6Frame slop frame)) i =
        push_bit 16 (ucast (dataId (slices frame ! i)))"
    if f: "frame \<in> ran (frameBuffer bt)" and i: "i < length (slices frame)"
      and ne: "snd (buildEVIO6Frame slop frame) \<noteq> []" for frame i
  proof -
    have "statusZero frame" using z f by blast
    then have "streamStatus (slices frame ! i) = 0"
      using i by (simp add: statusZero_def list_all_length)
    then show ?thesis
      using aisEntryAt_eq [OF pair_of_build ne i] by (simp add: aisEntry_statusZero)
  qed
  show ?thesis using inv z e by (simp add: threadInv_def)
qed

theorem C10_ais_status_bits_zero_witness:
  "FrameBuilder_ctor ''/tmp/et_sys'' [] 0 [] ''frames'' 1 1048576 100 1000 1 = Inr exampleBuilder0
   \<and> FrameBuilder_start True exampleBuilder0 = (True, exampleBuilder)
   \<and> run exampleEvents exampleBuilder = Some exampleFinal
   \<and> builderThreads exampleFinal = [processEntry exampleEnv 5 0x10 exampleWorker]
   \<and> etEvents (processEntry exampleEnv 5 0x10 exampleWorker) = [snd (buildEVIO6Frame 100 frameOne)]
   \<and> aisLowBitsZero (snd (buildEVIO6Frame 100 frameOne))"
proof -
  have m: "processEntry exampleEnv 5 0x10 exampleWorker \<in> set (builderThreads exampleFinal)"
    by (simp add: final_exampleEvents)
  have "\<forall>B \<in> set (etEvents (processEntry exampleEnv 5 0x10 exampleWorker)). aisLowBitsZero B"
    using C10_ais_status_bits_zero [OF ctor_exampleBuilder0 start_exampleBuilder
        final_exampleEvents(1) m] by blast
  then have "aisLowBitsZero (snd (buildEVIO6Frame 100 frameOne))"
    by (simp add: etEvents_exampleWorker)
  then show ?thesis
    using ctor_exampleBuilder0 start_exampleBuilder final_exampleEvents etEvents_exampleWorker
    by blast
qed

section \<open>The clock while the threads are stopped\<close>














section \<open>How long stop takes (C9)\<close>




section \<open>Every slice of a buffered frame carries the key of the frame\<close>



































section \<open>The mean timestamp (C4)\<close>




end
